theory Spec2Isabelle
  imports Complex_Main "HOL-Library.Word" "HOL-Library.Char_ord" "HOL-Library.List_Lexorder"
    "HOL-Library.Sublist"
begin

section \<open>Python values the script relies on\<close>

text \<open>
  The script \<^verbatim>\<open>segmask.py\<close> is Python 2. Exceptions it can raise are values of
  \<open>py_error\<close>; a computation that may raise returns \<open>py_error + 'a\<close>, with
  \<open>Inl\<close> for the exception.
\<close>

datatype py_error = IndexError | ValueError | TypeError | IOError

text \<open>
  Subscripting a list, \<^verbatim>\<open>xs[i]\<close>. Python reads \<^verbatim>\<open>xs[-k]\<close> as the k-th element from the
  end; a subscript outside \<^verbatim>\<open>-len(xs) .. len(xs)-1\<close> raises IndexError.
\<close>

definition py_index :: "'a list \<Rightarrow> int \<Rightarrow> py_error + 'a" where
  "py_index xs i =
     (if 0 \<le> i \<and> i < int (length xs) then Inr (xs ! nat i)
      else if i < 0 \<and> - int (length xs) \<le> i then Inr (xs ! nat (int (length xs) + i))
      else Inl IndexError)"

text \<open>
  \<^verbatim>\<open>int(x)\<close> of a float truncates towards zero. Coordinates are finite floats, which are
  rational numbers.
\<close>

definition int_of_float :: "rat \<Rightarrow> int" where
  "int_of_float x = (if 0 \<le> x then \<lfloor>x\<rfloor> else \<lceil>x\<rceil>)"

text \<open>\<^verbatim>\<open>xs[2::3]\<close>: the elements at positions 2, 5, 8, ...\<close>

fun slice_2_3 :: "'a list \<Rightarrow> 'a list" where
  "slice_2_3 (x # y # z # rest) = z # slice_2_3 rest"
| "slice_2_3 rest = []"

text \<open>\<^verbatim>\<open>np.unique\<close>: the distinct values, in ascending order.\<close>

definition np_unique :: "int list \<Rightarrow> int list" where
  "np_unique xs = sort (remdups xs)"

text \<open>\<^verbatim>\<open>arr == v\<close> on a numpy array: the elementwise comparison, an array of the same length.\<close>

definition np_eq_scalar :: "int list \<Rightarrow> int \<Rightarrow> bool list" where
  "np_eq_scalar arr v = map (\<lambda>a. a = v) arr"

text \<open>
  \<^verbatim>\<open>max(set(cont_u), key = list.count)\<close>: on an empty set \<^verbatim>\<open>max\<close> raises ValueError
  before the key is used; on a non-empty set the key, the unbound method \<^verbatim>\<open>list.count\<close>,
  is called on an integer and raises TypeError.
\<close>

definition max_key_list_count :: "int list \<Rightarrow> py_error + int" where
  "max_key_list_count s = (if s = [] then Inl ValueError else Inl TypeError)"

section \<open>The model's data\<close>

record ImodContour =
  points :: "rat list"

record ImodObject =
  nContours :: nat
  Contours :: "ImodContour list"

record ImodModel =
  nObjects :: nat
  Objects :: "ImodObject list"

section \<open>\<^verbatim>\<open>get_z_from_ImodContour\<close>\<close>

text \<open>
  The function returns the Z value and prints; the model returns the value together with
  the lines printed. The test \<^verbatim>\<open>len(cont_u == 1)\<close> is the length of the elementwise
  comparison, so it is true exactly when \<^verbatim>\<open>cont_u\<close> is non-empty.
\<close>

definition multi_z_warning :: string where
  "multi_z_warning =
     ''WARNING: Contour has more than one Z value. Selecting the most common Z value.''"

definition get_z_from_ImodContour :: "ImodContour \<Rightarrow> py_error + (int \<times> string list)" where
  "get_z_from_ImodContour cont =
     (let cont_u = np_unique (map int_of_float (slice_2_3 (points cont)))
      in if length (np_eq_scalar cont_u 1) > 0
         then (case py_index cont_u 0 of Inl e \<Rightarrow> Inl e | Inr uq \<Rightarrow> Inr (uq, []))
         else (case max_key_list_count (remdups cont_u) of
                 Inl e \<Rightarrow> Inl e
               | Inr uq \<Rightarrow> Inr (uq, [multi_z_warning])))"

section \<open>Strings: splitting, parsing and printing integers\<close>

text \<open>The whitespace of a Python 2 byte string: space, tab, newline, vertical tab, form feed, return.\<close>

definition is_space :: "char \<Rightarrow> bool" where
  "is_space c = (c \<in> set [CHR '' '', CHR 0x09, CHR 0x0A, CHR 0x0B, CHR 0x0C, CHR 0x0D])"

text \<open>
  \<^verbatim>\<open>line.split()\<close>: the maximal runs of non-whitespace characters. \<open>split_from w s\<close> reads
  \<open>s\<close> with the word \<open>w\<close> begun.
\<close>

fun split_from :: "string \<Rightarrow> string \<Rightarrow> string list" where
  "split_from w [] = (if w = [] then [] else [w])"
| "split_from w (c # cs) =
     (if is_space c then (if w = [] then split_from [] cs else w # split_from [] cs)
      else split_from (w @ [c]) cs)"

definition py_split :: "string \<Rightarrow> string list" where
  "py_split s = split_from [] s"

text \<open>
  Iterating over a text file (\<^verbatim>\<open>list(fid)\<close>, \<^verbatim>\<open>for line in infile\<close>): the lines, each with
  its newline; the last line may lack one.
\<close>

fun lines_from :: "string \<Rightarrow> string \<Rightarrow> string list" where
  "lines_from l [] = (if l = [] then [] else [l])"
| "lines_from l (c # cs) =
     (if c = CHR 0x0A then (l @ [c]) # lines_from [] cs else lines_from (l @ [c]) cs)"

definition file_lines :: "string \<Rightarrow> string list" where
  "file_lines s = lines_from [] s"

text \<open>
  \<^verbatim>\<open>int(s)\<close> of a string: surrounding whitespace is dropped, then an optional sign and at
  least one decimal digit must remain; anything else raises ValueError.
\<close>

definition is_digit :: "char \<Rightarrow> bool" where
  "is_digit c = (c \<in> set ''0123456789'')"

definition digit_value :: "char \<Rightarrow> nat" where
  "digit_value c = of_char c - 48"

definition digits_value :: "string \<Rightarrow> nat" where
  "digits_value ds = foldl (\<lambda>a c. 10 * a + digit_value c) 0 ds"

definition strip :: "string \<Rightarrow> string" where
  "strip s = rev (dropWhile is_space (rev (dropWhile is_space s)))"

definition int_of_str :: "string \<Rightarrow> py_error + int" where
  "int_of_str s =
     (let t = strip s;
          signed = (case t of [] \<Rightarrow> False | c # r \<Rightarrow> c = CHR ''-'' \<or> c = CHR ''+'');
          ds = (if signed then tl t else t)
      in if ds = [] then Inl ValueError
         else if list_all is_digit ds
         then Inr (if hd t = CHR ''-'' then - int (digits_value ds) else int (digits_value ds))
         else Inl ValueError)"

text \<open>\<^verbatim>\<open>str(i)\<close> of an integer, which is also what \<^verbatim>\<open>'{}'.format(i)\<close> prints.\<close>

function str_nat :: "nat \<Rightarrow> string" where
  "str_nat n =
     (if n < 10 then [''0123456789'' ! n]
      else str_nat (n div 10) @ [''0123456789'' ! (n mod 10)])"
  by pat_completeness auto
termination
  by (relation "measure (\<lambda>n. n)") auto

declare str_nat.simps [simp del]

definition str_int :: "int \<Rightarrow> string" where
  "str_int i = (if i < 0 then CHR ''-'' # str_nat (nat (- i)) else str_nat (nat i))"

text \<open>\<^verbatim>\<open>print zlist\<close>: the list as Python writes it, \<^verbatim>\<open>[1, 2, 3]\<close>.\<close>

fun comma_separated :: "string list \<Rightarrow> string" where
  "comma_separated [] = []"
| "comma_separated [s] = s"
| "comma_separated (s # t # rest) = s @ '', '' @ comma_separated (t # rest)"

definition repr_int_list :: "int list \<Rightarrow> string" where
  "repr_int_list zs = ''['' @ comma_separated (map str_int zs) @ '']''"

text \<open>\<^verbatim>\<open>s.zfill(w)\<close>: zeros are inserted on the left, after a sign if there is one.\<close>

definition zfill :: "nat \<Rightarrow> string \<Rightarrow> string" where
  "zfill w s =
     (case s of
        [] \<Rightarrow> replicate w (CHR ''0'')
      | c # r \<Rightarrow>
          if c = CHR ''-'' \<or> c = CHR ''+''
          then c # replicate (w - length s) (CHR ''0'') @ r
          else replicate (w - length s) (CHR ''0'') @ s)"

text \<open>\<^verbatim>\<open>os.path.join(a, b)\<close> on POSIX.\<close>

definition os_path_join :: "string \<Rightarrow> string \<Rightarrow> string" where
  "os_path_join a b =
     (if b \<noteq> [] \<and> hd b = CHR ''/'' then b
      else if a = [] \<or> last a = CHR ''/'' then a @ b
      else a @ ''/'' @ b)"

section \<open>Building \<^verbatim>\<open>zlist\<close> (lines 192 to 203)\<close>

definition contour_line :: "nat \<Rightarrow> int \<Rightarrow> string" where
  "contour_line iCont zi = ''Contour: '' @ str_int (int iCont + 1) @ '', Z: '' @ str_int zi"

definition missing_warning :: string where
  "missing_warning = ''WARNING: Missing contour''"

text \<open>
  The loop \<^verbatim>\<open>for iCont in range(nContours)\<close>, over the indices still to visit. The state is
  \<^verbatim>\<open>zprev\<close>, \<^verbatim>\<open>zlist\<close> and the lines printed so far. An exception ends the run.
\<close>

fun zlist_loop ::
  "ImodObject \<Rightarrow> nat list \<Rightarrow> int \<times> int list \<times> string list
     \<Rightarrow> py_error + (int \<times> int list \<times> string list)" where
  "zlist_loop obj [] st = Inr st"
| "zlist_loop obj (iCont # rest) (zprev, zlist, out) =
     (case py_index (Contours obj) (int iCont) of
        Inl e \<Rightarrow> Inl e
      | Inr cont \<Rightarrow>
          (case get_z_from_ImodContour cont of
             Inl e \<Rightarrow> Inl e
           | Inr (zi, printed) \<Rightarrow>
               zlist_loop obj rest
                 (zi, zlist @ [zi],
                  out @ printed @ [contour_line iCont zi]
                    @ (if iCont \<noteq> 0 \<and> zi \<noteq> zprev + 1 then [missing_warning] else []))))"

text \<open>
  Lines 194 to 203: the loop started with \<^verbatim>\<open>zprev = zmin\<close> and an empty \<^verbatim>\<open>zlist\<close>, followed
  by \<^verbatim>\<open>print zlist\<close>.
\<close>

definition build_zlist :: "ImodObject \<Rightarrow> int \<Rightarrow> py_error + (int list \<times> string list)" where
  "build_zlist obj zmin =
     (case zlist_loop obj [0 ..< nContours obj] (zmin, [], []) of
        Inl e \<Rightarrow> Inl e
      | Inr (zprev, zlist, out) \<Rightarrow> Inr (zlist, out @ [repr_int_list zlist]))"

section \<open>The accumulation block (lines 277 to 292)\<close>

text \<open>\<^verbatim>\<open>int(line.split()[1])\<close>: the contour index of a line of a point listing.\<close>

definition contour_index :: "string \<Rightarrow> py_error + int" where
  "contour_index line =
     (case py_index (py_split line) 1 of Inl e \<Rightarrow> Inl e | Inr f1 \<Rightarrow> int_of_str f1)"

text \<open>
  One line of a slice's point listing, rewritten for the accumulator:
  \<^verbatim>\<open>'1 {0} {1} {2} {3}\n'.format(int(lsplit[1]) + C, lsplit[2], lsplit[3], lsplit[4])\<close>.
  \<open>renumbered_fields\<close> are the arguments of \<^verbatim>\<open>format\<close>, evaluated from left to right.
\<close>

definition renumbered_fields :: "int \<Rightarrow> string \<Rightarrow> py_error + (int \<times> string \<times> string \<times> string)" where
  "renumbered_fields C line =
     (let lsplit = py_split line in
      case contour_index line of Inl e \<Rightarrow> Inl e | Inr k \<Rightarrow>
      case py_index lsplit 2 of Inl e \<Rightarrow> Inl e | Inr f2 \<Rightarrow>
      case py_index lsplit 3 of Inl e \<Rightarrow> Inl e | Inr f3 \<Rightarrow>
      case py_index lsplit 4 of Inl e \<Rightarrow> Inl e | Inr f4 \<Rightarrow>
        Inr (k + C, f2, f3, f4))"

definition format_newline :: "int \<times> string \<times> string \<times> string \<Rightarrow> string" where
  "format_newline a =
     (case a of (k, x, y, z) \<Rightarrow>
        ''1 '' @ str_int k @ '' '' @ x @ '' '' @ y @ '' '' @ z @ [CHR 0x0A])"

definition newline_of :: "int \<Rightarrow> string \<Rightarrow> py_error + string" where
  "newline_of C line =
     (case renumbered_fields C line of Inl e \<Rightarrow> Inl e | Inr a \<Rightarrow> Inr (format_newline a))"

text \<open>\<^verbatim>\<open>for line in infile: ... outfile.write(newline)\<close>, the accumulator's text passed along.\<close>

fun write_lines :: "int \<Rightarrow> string list \<Rightarrow> string \<Rightarrow> py_error + string" where
  "write_lines C [] outfile = Inr outfile"
| "write_lines C (line # rest) outfile =
     (case newline_of C line of
        Inl e \<Rightarrow> Inl e
      | Inr newline \<Rightarrow> write_lines C rest (outfile @ newline))"

text \<open>\<^verbatim>\<open>ncont = int(lastline.split()[1])\<close>, with \<^verbatim>\<open>lastline = list(fid)[-1]\<close>.\<close>

definition ncont_of :: "string \<Rightarrow> py_error + int" where
  "ncont_of txt =
     (case py_index (file_lines txt) (- 1) of
        Inl e \<Rightarrow> Inl e
      | Inr lastline \<Rightarrow> contour_index lastline)"

text \<open>
  The block, for one slice: \<open>txt\<close> is the content of the slice's point listing
  \<^verbatim>\<open>file_tmp + '.txt'\<close>, \<open>outfile\<close> the content of the accumulator \<^verbatim>\<open>file_out + '.txt'\<close>
  (opened for appending) and \<open>C\<close> the running counter. The listing's size is zero exactly
  when its content is empty.
\<close>

definition accumulate :: "string \<Rightarrow> string \<times> int \<Rightarrow> py_error + (string \<times> int)" where
  "accumulate txt st =
     (case st of (outfile, C) \<Rightarrow>
        if \<not> (length txt = 0) then
          (case ncont_of txt of
             Inl e \<Rightarrow> Inl e
           | Inr ncont \<Rightarrow>
               (case write_lines C (file_lines txt) outfile of
                  Inl e \<Rightarrow> Inl e
                | Inr outfile' \<Rightarrow> Inr (outfile', C + ncont)))
        else Inr (outfile, C))"

text \<open>
  The accumulation block run over the point listings \<open>txts\<close> of successive slices: what
  the loop over the slices does to the accumulator and the counter.
\<close>

fun accumulate_loop :: "string list \<Rightarrow> string \<times> int \<Rightarrow> py_error + (string \<times> int)" where
  "accumulate_loop [] st = Inr st"
| "accumulate_loop (txt # rest) st =
     (case accumulate txt st of Inl e \<Rightarrow> Inl e | Inr st' \<Rightarrow> accumulate_loop rest st')"

section \<open>Rasters and the intersection block (lines 235 to 251)\<close>

text \<open>
  A two-dimensional numpy array: its shape and its elements, row after row. The images
  read by \<^verbatim>\<open>misc.imread\<close> are 8-bit greyscale rasters.
\<close>

record 'a ndarray =
  shape0 :: nat
  shape1 :: nat
  elems :: "'a list"

type_synonym raster = "8 word ndarray"

definition wf_ndarray :: "'a ndarray \<Rightarrow> bool" where
  "wf_ndarray a = (length (elems a) = shape0 a * shape1 a)"

text \<open>
  \<^verbatim>\<open>np.logical_and(a, b)\<close>: an element is true when it is non-zero in both arrays. numpy
  broadcasts: along an axis the two sizes must be equal, or one of them is 1 and that
  array is repeated; other shapes raise ValueError.
\<close>

definition bcast_dim :: "nat \<Rightarrow> nat \<Rightarrow> nat option" where
  "bcast_dim m n =
     (if m = n then Some m else if m = 1 then Some n else if n = 1 then Some m else None)"

definition elem_at :: "'a ndarray \<Rightarrow> nat \<Rightarrow> nat \<Rightarrow> 'a" where
  "elem_at a i j =
     elems a ! ((if shape0 a = 1 then 0 else i) * shape1 a + (if shape1 a = 1 then 0 else j))"

definition logical_and :: "raster \<Rightarrow> raster \<Rightarrow> py_error + bool ndarray" where
  "logical_and a b =
     (case bcast_dim (shape0 a) (shape0 b) of
        None \<Rightarrow> Inl ValueError
      | Some r \<Rightarrow>
          (case bcast_dim (shape1 a) (shape1 b) of
             None \<Rightarrow> Inl ValueError
           | Some c \<Rightarrow>
               Inr \<lparr>shape0 = r, shape1 = c,
                    elems = concat (map (\<lambda>i. map (\<lambda>j. elem_at a i j \<noteq> 0 \<and> elem_at b i j \<noteq> 0)
                                           [0 ..< c]) [0 ..< r])\<rparr>))"

text \<open>
  The image files, by path. \<^verbatim>\<open>misc.imread\<close> raises IOError when there is no such file.
\<close>

type_synonym image_files = "string \<rightharpoonup> raster"

definition imread :: "image_files \<Rightarrow> string \<Rightarrow> py_error + raster" where
  "imread fs path = (case fs path of None \<Rightarrow> Inl IOError | Some img \<Rightarrow> Inr img)"

text \<open>
  The library functions of \<^verbatim>\<open>scipy.misc\<close> are not part of the script and are parameters:
  \<open>imresize img rows cols\<close> is \<^verbatim>\<open>misc.imresize(img, [rows, cols])\<close>, and \<open>imsave_raster m\<close>
  is the 8-bit raster that \<^verbatim>\<open>misc.imsave\<close> stores for the boolean array \<open>m\<close> (line 250,
  \<^verbatim>\<open>imgMask.astype('uint8')\<close>, discards its result, so \<^verbatim>\<open>imsave\<close> is given the boolean array).
\<close>

record scipy_misc =
  imresize :: "raster \<Rightarrow> nat \<Rightarrow> nat \<Rightarrow> raster"
  imsave_raster :: "bool ndarray \<Rightarrow> raster"

text \<open>Lines 241 to 246: the two images after the resize tests.\<close>

definition resize_block :: "scipy_misc \<Rightarrow> nat \<Rightarrow> nat \<Rightarrow> raster \<Rightarrow> raster \<Rightarrow> raster \<times> raster" where
  "resize_block misc nRowMrc nColMrc imgCell imgOrg =
     (let imgCell' = (if shape0 imgCell \<noteq> nRowMrc \<or> shape1 imgCell \<noteq> nColMrc
                      then imresize misc imgOrg nRowMrc nColMrc else imgCell);
          imgOrg' = (if shape0 imgOrg \<noteq> nRowMrc \<or> shape1 imgOrg \<noteq> nColMrc
                     then imresize misc imgOrg nRowMrc nColMrc else imgOrg)
      in (imgCell', imgOrg'))"

text \<open>\<^verbatim>\<open>file_tmp = os.path.join(path_tmp, str(zi).zfill(4))\<close>\<close>

definition file_tmp :: "string \<Rightarrow> int \<Rightarrow> string" where
  "file_tmp path_tmp zi = os_path_join path_tmp (zfill 4 (str_int zi))"

text \<open>\<^verbatim>\<open>filesOrg = sorted(glob.glob(os.path.join(path_seg, '*')))\<close>, given what glob returns.\<close>

definition sorted_listing :: "string list \<Rightarrow> string list" where
  "sorted_listing globbed = sort globbed"

text \<open>
  Lines 235 to 251 for the slice \<open>zi\<close>: read the cell mask and the organelle image, resize,
  intersect, and save the mask.
\<close>

definition intersect_slice ::
  "scipy_misc \<Rightarrow> nat \<Rightarrow> nat \<Rightarrow> string list \<Rightarrow> string \<Rightarrow> int \<Rightarrow> image_files
     \<Rightarrow> py_error + image_files" where
  "intersect_slice misc nRowMrc nColMrc filesOrg path_tmp zi fs =
     (case imread fs (file_tmp path_tmp zi @ ''.tif'') of Inl e \<Rightarrow> Inl e | Inr imgCell \<Rightarrow>
      case py_index filesOrg (zi - 1) of Inl e \<Rightarrow> Inl e | Inr fileOrg \<Rightarrow>
      case imread fs fileOrg of Inl e \<Rightarrow> Inl e | Inr imgOrg \<Rightarrow>
      case resize_block misc nRowMrc nColMrc imgCell imgOrg of (imgCell', imgOrg') \<Rightarrow>
      case logical_and imgCell' imgOrg' of Inl e \<Rightarrow> Inl e | Inr imgMask \<Rightarrow>
        Inr (fs(file_tmp path_tmp zi @ ''.tif'' \<mapsto> imsave_raster misc imgMask)))"

section \<open>The loop over the slices (lines 219 to 293)\<close>

text \<open>
  The IMOD programs the loop calls are parameters: \<open>cell_mask zi\<close> is the TIF that
  \<^verbatim>\<open>imodmop -mask 1 -zminmax zi,zi\<close> and \<^verbatim>\<open>mrc2tif\<close> leave at \<^verbatim>\<open>file_tmp + '.tif'\<close>, and
  \<open>point_listing zi mask\<close> is the point listing that \<^verbatim>\<open>imodauto\<close>, \<^verbatim>\<open>imodtrans -tz (zi - 1)\<close>
  and \<^verbatim>\<open>model2point\<close> make of the mask saved there. Their other files (.mrc, .mod, .txt)
  are written and removed within the slice; the TIF is removed once \<^verbatim>\<open>imodauto\<close> has read
  it.
\<close>

record slice_tools =
  cell_mask :: "int \<Rightarrow> raster"
  point_listing :: "int \<Rightarrow> raster \<Rightarrow> string"

text \<open>
  The body of the loop for the slice \<open>zi\<close>. The state is the image files, the text of
  the accumulator \<^verbatim>\<open>file_out + '.txt'\<close> and the counter \<open>C\<close>.
\<close>

definition process_slice ::
  "scipy_misc \<Rightarrow> slice_tools \<Rightarrow> nat \<Rightarrow> nat \<Rightarrow> string list \<Rightarrow> string \<Rightarrow> int
     \<Rightarrow> image_files \<times> string \<times> int \<Rightarrow> py_error + (image_files \<times> string \<times> int)" where
  "process_slice misc tools nRowMrc nColMrc filesOrg ptmp zi st =
     (case st of (fs, outfile, C) \<Rightarrow>
        (case intersect_slice misc nRowMrc nColMrc filesOrg ptmp zi
                (fs(file_tmp ptmp zi @ ''.tif'' \<mapsto> cell_mask tools zi)) of
           Inl e \<Rightarrow> Inl e
         | Inr fs' \<Rightarrow>
             (case imread fs' (file_tmp ptmp zi @ ''.tif'') of
                Inl e \<Rightarrow> Inl e
              | Inr imgMask \<Rightarrow>
                  (case accumulate (point_listing tools zi imgMask) (outfile, C) of
                     Inl e \<Rightarrow> Inl e
                   | Inr (outfile', C') \<Rightarrow>
                       Inr (fs'(file_tmp ptmp zi @ ''.tif'' := None), outfile', C')))))"

text \<open>\<^verbatim>\<open>for zi in zlist\<close>; the script starts it with \<^verbatim>\<open>C = 0\<close>.\<close>

fun slice_loop ::
  "scipy_misc \<Rightarrow> slice_tools \<Rightarrow> nat \<Rightarrow> nat \<Rightarrow> string list \<Rightarrow> string \<Rightarrow> int list
     \<Rightarrow> image_files \<times> string \<times> int \<Rightarrow> py_error + (image_files \<times> string \<times> int)" where
  "slice_loop misc tools nRowMrc nColMrc filesOrg ptmp [] st = Inr st"
| "slice_loop misc tools nRowMrc nColMrc filesOrg ptmp (zi # rest) st =
     (case process_slice misc tools nRowMrc nColMrc filesOrg ptmp zi st of
        Inl e \<Rightarrow> Inl e
      | Inr st' \<Rightarrow> slice_loop misc tools nRowMrc nColMrc filesOrg ptmp rest st')"

section \<open>Arguments and directories (lines 106 to 118 and 135 to 159)\<close>

text \<open>
  What the script asks of the file system, and the values of optparse. An option that
  was not given holds its default; one given on the command line holds the string typed.
\<close>

record os_view =
  isfile :: "string \<Rightarrow> bool"
  isdir :: "string \<Rightarrow> bool"
  getcwd :: string

datatype optval = OptInt int | OptStr string

definition truthy :: "optval \<Rightarrow> bool" where
  "truthy v = (case v of OptInt i \<Rightarrow> i \<noteq> 0 | OptStr s \<Rightarrow> s \<noteq> [])"

definition int_of_optval :: "optval \<Rightarrow> py_error + int" where
  "int_of_optval v = (case v of OptInt i \<Rightarrow> Inr i | OptStr s \<Rightarrow> int_of_str s)"

definition str_of_optval :: "optval \<Rightarrow> string" where
  "str_of_optval v = (case v of OptInt i \<Rightarrow> str_int i | OptStr s \<Rightarrow> s)"

record opts =
  path_out :: "string option"
  runPostprocessing :: bool
  slicesToSkipOrganelle :: optval
  filterByNContours :: optval
  mergeAll :: bool
  color :: "string option"
  name :: "string option"

text \<open>
  \<^verbatim>\<open>usage(errstr)\<close> prints an empty line, the help text of optparse, an empty line, the
  error and an empty line, and leaves with \<^verbatim>\<open>exit(1)\<close>. The result of a run that ends so is
  the exit status with the lines printed.
\<close>

datatype system_exit = SystemExit int "string list"

definition usage :: "string list \<Rightarrow> string \<Rightarrow> system_exit" where
  "usage help errstr = SystemExit 1 ([[]] @ help @ [[], ''ERROR: '' @ errstr, []])"

definition check_args ::
  "os_view \<Rightarrow> string list \<Rightarrow> string list \<Rightarrow> system_exit + (string \<times> string \<times> string)" where
  "check_args os help args =
     (if length args \<noteq> 3 then Inl (usage help ''Improper number of arguments.'')
      else let file_mrc = args ! 0; file_mod = args ! 1; path_seg = args ! 2 in
        if \<not> isfile os file_mrc then Inl (usage help (file_mrc @ '' is not a valid file.''))
        else if \<not> isfile os file_mod then Inl (usage help (file_mod @ '' is not a valid file.''))
        else if \<not> isdir os path_seg
          then Inl (usage help (''The path '' @ path_seg @ '' does not exist''))
        else Inr (file_mrc, file_mod, path_seg))"

text \<open>
  Lines 144 to 159: the paths a run works with, once every check has passed. The
  directory \<^verbatim>\<open>path_tmp\<close> is then created.
\<close>

record run_paths =
  file_mrc :: string
  file_mod :: string
  path_seg :: string
  out_dir :: string
  path_tmp :: string

definition resolve_path_out :: "os_view \<Rightarrow> opts \<Rightarrow> string" where
  "resolve_path_out os opt =
     (case path_out opt of None \<Rightarrow> getcwd os | Some p \<Rightarrow> if p \<noteq> [] then p else getcwd os)"

definition validate :: "os_view \<Rightarrow> string list \<Rightarrow> opts \<Rightarrow> string list \<Rightarrow> system_exit + run_paths" where
  "validate os help opt args =
     (case check_args os help args of
        Inl ex \<Rightarrow> Inl ex
      | Inr (fmrc, fmod, pseg) \<Rightarrow>
          let pout = resolve_path_out os opt in
          if \<not> isdir os pout
          then Inl (usage help (''The output path '' @ pout @ '' does not exist.''))
          else let ptmp = os_path_join pout ''tmp'' in
            if isdir os ptmp
            then Inl (usage help (''There is already a folder with the name tmp in the output ''
                                   @ ''path '' @ pout))
            else Inr \<lparr>file_mrc = fmrc, file_mod = fmod, path_seg = pseg,
                      out_dir = pout, path_tmp = ptmp\<rparr>)"

text \<open>
  The whole script: \<open>rest\<close> is everything from line 159 on (creating the directory,
  loading the model, the slices, the output), run only with validated paths.
\<close>

definition main :: "os_view \<Rightarrow> string list \<Rightarrow> opts \<Rightarrow> string list
    \<Rightarrow> (run_paths \<Rightarrow> system_exit + 'r) \<Rightarrow> system_exit + 'r" where
  "main os help opt args rest =
     (case validate os help opt args of Inl ex \<Rightarrow> Inl ex | Inr paths \<Rightarrow> rest paths)"

section \<open>The assembled model and postprocessing (lines 295 to 335)\<close>

text \<open>
  The IMOD programs and the PyIMOD library are not part of the script and are
  parameters. What they do to the model files stays open:

  \<^item> \<open>point2model mrc listing\<close> is what \<^verbatim>\<open>point2model -image mrc out.txt out.mod\<close> writes to
    \<^verbatim>\<open>out.mod\<close>: a model, or nothing (\<open>None\<close>) when the program fails. \<open>listing\<close> is the
    text of \<^verbatim>\<open>out.txt\<close>, or \<open>None\<close> when there is no such file. The script does not look
    at the result of \<^verbatim>\<open>call\<close>.
  \<^item> \<open>ImodCmd m cmd fs\<close> is \<^verbatim>\<open>pyimod.utils.ImodCmd(m, cmd)\<close> run with the model files \<open>fs\<close>:
    the model it returns, and the model files it leaves.
  \<^item> \<open>moveObjects\<close> and the two uses of \<open>setAll\<close> are methods of the \<^verbatim>\<open>ImodModel\<close> object
    in memory.
\<close>

type_synonym model_files = "string \<rightharpoonup> ImodModel"

record imod_tools =
  point2model :: "string \<Rightarrow> string option \<Rightarrow> ImodModel option"
  ImodCmd :: "ImodModel \<Rightarrow> string \<Rightarrow> model_files \<Rightarrow> ImodModel \<times> model_files"
  moveObjects :: "ImodModel \<Rightarrow> int \<Rightarrow> string \<Rightarrow> ImodModel"
  setAll_color :: "ImodModel \<Rightarrow> string \<Rightarrow> ImodModel"
  setAll_name :: "ImodModel \<Rightarrow> string \<Rightarrow> ImodModel"

text \<open>
  Modelled from the spec: \<^verbatim>\<open>ImodModel.filterByNContours\<close> belongs to PyIMOD and is not under
  src/. The script calls it with the comparison \<^verbatim>\<open>'>'\<close>; the spec says of that call that it
  filters out Objects whose contour count does not exceed the threshold (strict "greater
  than" retention) and retains all others unchanged.
\<close>

definition filterByNContours_greater :: "ImodModel \<Rightarrow> int \<Rightarrow> ImodModel" where
  "filterByNContours_greater m n =
     (let kept = filter (\<lambda>ob. n < int (nContours ob)) (Objects m)
      in m\<lparr>nObjects := length kept, Objects := kept\<rparr>)"

text \<open>Lines 315 to 317.\<close>

definition filter_step :: "opts \<Rightarrow> ImodModel \<Rightarrow> py_error + ImodModel" where
  "filter_step opt m =
     (if truthy (filterByNContours opt)
      then (case int_of_optval (filterByNContours opt) of
              Inl e \<Rightarrow> Inl e
            | Inr n \<Rightarrow> Inr (filterByNContours_greater m n))
      else Inr m)"

text \<open>\<^verbatim>\<open>file_out = os.path.join(path_tmp, 'out')\<close>\<close>

definition file_out :: "string \<Rightarrow> string" where
  "file_out ptmp = os_path_join ptmp ''out''"

text \<open>
  The accumulator \<^verbatim>\<open>file_out + '.txt'\<close> as a file: the loop opens it (lines 284 to 290) only
  for a slice with a non-empty listing, and then appends at least one line; in the fresh
  directory \<^verbatim>\<open>tmp\<close> it exists exactly when its text is not empty.
\<close>

definition listing_file :: "string \<Rightarrow> string option" where
  "listing_file outfile = (if outfile = [] then None else Some outfile)"

text \<open>
  Lines 295 to 299: \<^verbatim>\<open>point2model\<close> is called on the accumulator and writes
  \<^verbatim>\<open>file_out + '.mod'\<close>, or writes nothing.
\<close>

definition assemble :: "imod_tools \<Rightarrow> run_paths \<Rightarrow> string \<Rightarrow> model_files \<Rightarrow> model_files" where
  "assemble tools paths outfile fs =
     (case point2model tools (file_mrc paths) (listing_file outfile) of
        None \<Rightarrow> fs
      | Some m \<Rightarrow> fs(file_out (path_tmp paths) @ ''.mod'' \<mapsto> m))"

text \<open>
  Lines 305 to 310 and again 323 to 326: the mesh is removed and made anew, by two
  commands run one after the other.
\<close>

definition remesh :: "imod_tools \<Rightarrow> opts \<Rightarrow> ImodModel \<Rightarrow> model_files \<Rightarrow> ImodModel \<times> model_files" where
  "remesh tools opt m fs =
     (case ImodCmd tools m ''imodmesh -e'' fs of
        (m1, fs1) \<Rightarrow>
          ImodCmd tools m1
            (''imodmesh -CTs -P '' @ str_of_optval (slicesToSkipOrganelle opt)) fs1)"

text \<open>Lines 319 to 321.\<close>

definition merge_step :: "imod_tools \<Rightarrow> opts \<Rightarrow> ImodModel \<Rightarrow> ImodModel" where
  "merge_step tools opt m =
     (if mergeAll opt then moveObjects tools m 1 (''2-'' @ str_int (int (nObjects m))) else m)"

text \<open>Lines 328 to 332: \<^verbatim>\<open>if opts.color: mod.setAll(color = opts.color)\<close>, and the name likewise.\<close>

definition set_if_given :: "(ImodModel \<Rightarrow> string \<Rightarrow> ImodModel) \<Rightarrow> string option \<Rightarrow> ImodModel \<Rightarrow> ImodModel" where
  "set_if_given setter v m = (case v of None \<Rightarrow> m | Some s \<Rightarrow> if s \<noteq> [] then setter m s else m)"

text \<open>
  Lines 301 to 335. \<^verbatim>\<open>pyimod.ImodModel(path)\<close> reads a model file, and raises when there is
  none; \<^verbatim>\<open>pyimod.ImodWrite(mod, path)\<close> stores the model at the path.
\<close>

definition postprocess :: "imod_tools \<Rightarrow> opts \<Rightarrow> string \<Rightarrow> model_files \<Rightarrow> py_error + model_files" where
  "postprocess tools opt fout fs =
     (if runPostprocessing opt then
        (case fs (fout @ ''.mod'') of
           None \<Rightarrow> Inl IOError
         | Some m0 \<Rightarrow>
             (case remesh tools opt m0 fs of
                (m2, fs2) \<Rightarrow>
                  (case ImodCmd tools m2 ''imodsortsurf -s'' fs2 of
                     (m3, fs3) \<Rightarrow>
                       (case filter_step opt m3 of
                          Inl e \<Rightarrow> Inl e
                        | Inr m4 \<Rightarrow>
                            (case remesh tools opt (merge_step tools opt m4) fs3 of
                               (m7, fs7) \<Rightarrow>
                                 Inr (fs7(fout @ ''_postprocessed.mod'' \<mapsto>
                                        set_if_given (setAll_name tools) (name opt)
                                          (set_if_given (setAll_color tools) (color opt) m7))))))))
      else Inr fs)"

definition write_output ::
  "imod_tools \<Rightarrow> opts \<Rightarrow> run_paths \<Rightarrow> string \<Rightarrow> model_files \<Rightarrow> py_error + model_files" where
  "write_output tools opt paths outfile fs =
     postprocess tools opt (file_out (path_tmp paths)) (assemble tools paths outfile fs)"

section \<open>Notions used to state what the accumulator holds\<close>

text \<open>
  A field is a non-empty string without whitespace, which is what \<^verbatim>\<open>split()\<close> returns; a
  complete line ends with its only newline.
\<close>

definition field :: "string \<Rightarrow> bool" where
  "field t = (t \<noteq> [] \<and> (\<forall>c \<in> set t. \<not> is_space c))"

definition complete_line :: "string \<Rightarrow> bool" where
  "complete_line l = (\<exists>b. l = b @ [CHR 0x0A] \<and> CHR 0x0A \<notin> set b)"

section \<open>Instances of the library parameters, for the examples\<close>

text \<open>
  The examples below need some \<^verbatim>\<open>imresize\<close> and some \<^verbatim>\<open>imsave\<close>: nearest-neighbour
  resampling, and true stored as 255. No theorem depends on this choice.
\<close>

definition nearest_resize :: "raster \<Rightarrow> nat \<Rightarrow> nat \<Rightarrow> raster" where
  "nearest_resize img rows cols =
     \<lparr>shape0 = rows, shape1 = cols,
      elems = concat (map (\<lambda>i. map (\<lambda>j. elems img ! ((i * shape0 img div rows) * shape1 img
                                               + j * shape1 img div cols)) [0 ..< cols])
                       [0 ..< rows])\<rparr>"

definition bool_raster :: "bool ndarray \<Rightarrow> raster" where
  "bool_raster m =
     \<lparr>shape0 = shape0 m, shape1 = shape1 m, elems = map (\<lambda>b. if b then 255 else 0) (elems m)\<rparr>"

definition example_misc :: scipy_misc where
  "example_misc = \<lparr>imresize = nearest_resize, imsave_raster = bool_raster\<rparr>"

text \<open>
  Some IMOD tools for the examples: \<^verbatim>\<open>point2model\<close> makes one object with a contour per
  line of the listing, and no model without a listing; \<^verbatim>\<open>ImodCmd\<close> leaves a copy of its
  model in a file of its own, and the command \<^verbatim>\<open>imodsortsurf -s\<close> makes an object of every
  contour; the methods return their model as it is.
\<close>

definition example_tools :: imod_tools where
  "example_tools =
     \<lparr>point2model =
        (\<lambda>mrc listing.
           case listing of
             None \<Rightarrow> None
           | Some text \<Rightarrow>
               Some \<lparr>nObjects = 1,
                     Objects = [\<lparr>nContours = length (file_lines text),
                                 Contours = map (\<lambda>l. \<lparr>points = [0, 0, 0]\<rparr>) (file_lines text)\<rparr>]\<rparr>),
      ImodCmd =
        (\<lambda>m cmd fs.
           (if cmd = ''imodsortsurf -s''
            then \<lparr>nObjects = length (concat (map Contours (Objects m))),
                  Objects = map (\<lambda>c. \<lparr>nContours = Suc 0, Contours = [c]\<rparr>)
                              (concat (map Contours (Objects m)))\<rparr>
            else m,
            fs(''/tmp/ImodCmd.mod'' \<mapsto> m))),
      moveObjects = (\<lambda>m dst src. m),
      setAll_color = (\<lambda>m c. m),
      setAll_name = (\<lambda>m n. m)\<rparr>"

text \<open>
  Some slice tools for the examples: the cell mask covers the upper row of a 2 x 2 slice,
  and the listing has one contour, of one point and with the object index 7, for each
  pixel set in the mask.
\<close>

definition example_slice_tools :: slice_tools where
  "example_slice_tools =
     \<lparr>cell_mask = (\<lambda>zi. \<lparr>shape0 = 2, shape1 = 2, elems = [255, 255, 0, 0]\<rparr>),
      point_listing = (\<lambda>zi m. if list_all (\<lambda>x. x = 0) (elems m) then []
                               else concat (map (\<lambda>k. ''7 '' @ str_int (int k) @ '' 0 0 '' @ str_int (zi - 1) @ [CHR 0x0A])
                                       [1 ..< Suc (length (filter (\<lambda>x. x \<noteq> 0) (elems m)))]))\<rparr>"


section \<open>Properties of \<^verbatim>\<open>get_z_from_ImodContour\<close>\<close>

lemma get_z_nonempty:
  assumes "slice_2_3 (points cont) \<noteq> []"
  shows "get_z_from_ImodContour cont
           = Inr (Min (set (map int_of_float (slice_2_3 (points cont)))), [])"
proof -
  define zs where "zs = map int_of_float (slice_2_3 (points cont))"
  have ne: "zs \<noteq> []" using assms by (simp add: zs_def)
  have s: "sort (remdups zs) = sorted_list_of_set (set zs)"
    by (rule sorted_list_of_set_sort_remdups [symmetric])
  have ne': "sorted_list_of_set (set zs) \<noteq> []"
    using ne by (simp add: sorted_list_of_set_nonempty)
  then obtain a as where c: "sorted_list_of_set (set zs) = a # as"
    by (cases "sorted_list_of_set (set zs)") auto
  have st: "set (a # as) = set zs" and so: "sorted (a # as)"
    using c by (metis List.finite_set set_sorted_list_of_set, metis sorted_sorted_list_of_set)
  have "Min (set zs) = a"
  proof (rule Min_eqI)
    show "finite (set zs)" by simp
    show "a \<in> set zs" using st by auto
    fix y assume "y \<in> set zs"
    then have "y \<in> set (a # as)" using st by simp
    then show "a \<le> y" using so by auto
  qed
  then show ?thesis
    using c s unfolding zs_def[symmetric] get_z_from_ImodContour_def np_unique_def
      np_eq_scalar_def py_index_def Let_def by simp
qed

text \<open>A contour whose Z values are all the same: that value is returned.\<close>

lemma get_z_single_z:
  assumes "slice_2_3 (points cont) \<noteq> []"
    and "\<forall>x \<in> set (slice_2_3 (points cont)). int_of_float x = v"
  shows "get_z_from_ImodContour cont = Inr (v, [])"
proof -
  let ?zs = "map int_of_float (slice_2_3 (points cont))"
  have "set ?zs = {v}" using assms by (cases "slice_2_3 (points cont)") auto
  then show ?thesis using get_z_nonempty [OF assms(1)] by simp
qed

text \<open>
  C1. The claim: a contour whose points share one Z returns that Z, and a contour with
  mixed Z values returns the most frequent one and prints the multi-Z warning. The
  contour with the points (0,0,5), (1,1,5), (2,2,3) has Z = 5 twice and Z = 3 once; the
  code returns 3, the smallest Z, and prints nothing.
\<close>

theorem get_z_mixed_returns_smallest:
  "get_z_from_ImodContour \<lparr>points = [0, 0, 5, 1, 1, 5, 2, 2, 3]\<rparr> = Inr (3, [])"
  by (simp add: get_z_from_ImodContour_def np_unique_def np_eq_scalar_def py_index_def
      int_of_float_def Let_def)

section \<open>Properties of the \<^verbatim>\<open>zlist\<close> loop\<close>

text \<open>
  The loop from index \<open>k\<close> on, when \<open>zs\<close> are the Z values that
  \<^verbatim>\<open>get_z_from_ImodContour\<close> returns for the contours.
\<close>

lemma zlist_loop_from:
  assumes len: "length zs \<le> length (Contours obj)"
    and gz: "\<forall>i < length zs. get_z_from_ImodContour (Contours obj ! i) = Inr (zs ! i, [])"
  shows "k \<le> length zs \<Longrightarrow> (0 < k \<longrightarrow> zprev = zs ! (k - 1)) \<Longrightarrow>
     zlist_loop obj [k ..< length zs] (zprev, zl, out)
       = Inr (if k < length zs then zs ! (length zs - 1) else zprev, zl @ drop k zs,
              out @ concat (map (\<lambda>i. contour_line i (zs ! i) #
                   (if 0 < i \<and> zs ! i \<noteq> zs ! (i - 1) + 1 then [missing_warning] else []))
                 [k ..< length zs]))"
proof (induction "length zs - k" arbitrary: k zprev zl out)
  case 0
  then have "k = length zs" by simp
  then show ?case by simp
next
  case (Suc d)
  let ?n = "length zs"
  let ?it = "\<lambda>i. contour_line i (zs ! i) #
                   (if 0 < i \<and> zs ! i \<noteq> zs ! (i - 1) + 1 then [missing_warning] else [])"
  from Suc have klt: "k < ?n" by simp
  have idx: "py_index (Contours obj) (int k) = Inr (Contours obj ! k)"
    using klt len by (simp add: py_index_def)
  have g: "get_z_from_ImodContour (Contours obj ! k) = Inr (zs ! k, [])"
    using gz klt by simp
  have upt: "[k ..< ?n] = k # [Suc k ..< ?n]"
    using klt by (simp add: upt_conv_Cons)
  have dr: "drop k zs = zs ! k # drop (Suc k) zs"
    using klt by (simp add: Cons_nth_drop_Suc)
  have cond: "(k \<noteq> 0 \<and> zs ! k \<noteq> zprev + 1) = (0 < k \<and> zs ! k \<noteq> zs ! (k - 1) + 1)"
    using Suc.prems(2) by auto
  have step: "zlist_loop obj (k # [Suc k ..< ?n]) (zprev, zl, out)
      = zlist_loop obj [Suc k ..< ?n] (zs ! k, zl @ [zs ! k], out @ ?it k)"
    using idx g cond by simp
  have IH: "zlist_loop obj [Suc k ..< ?n] (zs ! k, zl @ [zs ! k], out @ ?it k)
       = Inr (if Suc k < ?n then zs ! (?n - 1) else zs ! k, (zl @ [zs ! k]) @ drop (Suc k) zs,
              (out @ ?it k) @ concat (map ?it [Suc k ..< ?n]))"
    using Suc.hyps(2) klt by (intro Suc.hyps(1)) auto
  have last: "(if Suc k < ?n then zs ! (?n - 1) else zs ! k) = zs ! (?n - 1)"
    using klt by (auto simp: not_less less_Suc_eq_le dest: le_antisym)
  have "zlist_loop obj [k ..< ?n] (zprev, zl, out)
      = Inr (zs ! (?n - 1), (zl @ [zs ! k]) @ drop (Suc k) zs,
              (out @ ?it k) @ concat (map ?it [Suc k ..< ?n]))"
    by (simp only: upt step IH last)
  also have "(zl @ [zs ! k]) @ drop (Suc k) zs = zl @ drop k zs"
    by (simp only: dr append_assoc append_Cons append_Nil)
  also have "(out @ ?it k) @ concat (map ?it [Suc k ..< ?n]) = out @ concat (map ?it [k ..< ?n])"
    by (simp only: upt list.map concat.simps append_assoc)
  finally show ?case using klt by simp
qed

lemma count_warnings:
  assumes "\<And>i. a i \<noteq> w"
  shows "length (filter (\<lambda>l. l = w) (concat (map (\<lambda>i. a i # (if g i then [w] else [])) js)))
           = length (filter g js)"
  using assms by (induction js) auto

lemma length_filter_upt: "length (filter g [0 ..< n]) = card {i. i < n \<and> g i}"
proof -
  have "distinct (filter g [0 ..< n])" by simp
  then have "length (filter g [0 ..< n]) = card (set (filter g [0 ..< n]))"
    by (simp only: distinct_card)
  also have "set (filter g [0 ..< n]) = {i. i < n \<and> g i}" by auto
  finally show ?thesis .
qed

lemma contour_line_not_warning: "contour_line i z \<noteq> missing_warning"
  by (simp add: contour_line_def missing_warning_def)

text \<open>
  C4. Let \<open>zs\<close> be the Z values that \<^verbatim>\<open>get_z_from_ImodContour\<close> returns for the sorted
  contours. The loop does not abort: it returns \<open>zs\<close> as \<^verbatim>\<open>zlist\<close>. What it prints is, for
  each position \<open>i\<close> in order, the line of the contour, followed by the line
  \<^verbatim>\<open>WARNING: Missing contour\<close> exactly when \<open>i > 0\<close> and \<open>zs ! i \<noteq> zs ! (i - 1) + 1\<close>; so the
  number of warnings printed is the number of such positions.
\<close>

theorem zlist_warning_exactly_at_gaps:
  assumes "nContours obj = length zs"
    and "length zs \<le> length (Contours obj)"
    and "\<forall>i < length zs. get_z_from_ImodContour (Contours obj ! i) = Inr (zs ! i, [])"
  shows "zlist_loop obj [0 ..< nContours obj] (zmin, [], [])
           = Inr (last (zmin # zs), zs,
                  concat (map (\<lambda>i. contour_line i (zs ! i) #
                     (if 0 < i \<and> zs ! i \<noteq> zs ! (i - 1) + 1 then [missing_warning] else []))
                   [0 ..< length zs]))
       \<and> length (filter (\<lambda>l. l = missing_warning)
             (concat (map (\<lambda>i. contour_line i (zs ! i) #
                     (if 0 < i \<and> zs ! i \<noteq> zs ! (i - 1) + 1 then [missing_warning] else []))
                   [0 ..< length zs])))
           = card {i. 0 < i \<and> i < length zs \<and> zs ! i \<noteq> zs ! (i - 1) + 1}"
proof
  have l: "last (zmin # zs) = (if 0 < length zs then zs ! (length zs - 1) else zmin)"
    by (cases zs rule: rev_cases) (auto simp: nth_append)
  show "zlist_loop obj [0 ..< nContours obj] (zmin, [], [])
           = Inr (last (zmin # zs), zs,
                  concat (map (\<lambda>i. contour_line i (zs ! i) #
                     (if 0 < i \<and> zs ! i \<noteq> zs ! (i - 1) + 1 then [missing_warning] else []))
                   [0 ..< length zs]))"
    using zlist_loop_from [OF assms(2) assms(3), of 0 zmin "[]" "[]"] assms(1) l by simp
next
  have "length (filter (\<lambda>l. l = missing_warning)
             (concat (map (\<lambda>i. contour_line i (zs ! i) #
                     (if 0 < i \<and> zs ! i \<noteq> zs ! (i - 1) + 1 then [missing_warning] else []))
                   [0 ..< length zs])))
        = length (filter (\<lambda>i. 0 < i \<and> zs ! i \<noteq> zs ! (i - 1) + 1) [0 ..< length zs])"
    by (rule count_warnings) (rule contour_line_not_warning)
  also have "\<dots> = card {i. i < length zs \<and> (0 < i \<and> zs ! i \<noteq> zs ! (i - 1) + 1)}"
    by (rule length_filter_upt)
  also have "{i. i < length zs \<and> (0 < i \<and> zs ! i \<noteq> zs ! (i - 1) + 1)}
      = {i. 0 < i \<and> i < length zs \<and> zs ! i \<noteq> zs ! (i - 1) + 1}" by auto
  finally show "length (filter (\<lambda>l. l = missing_warning)
             (concat (map (\<lambda>i. contour_line i (zs ! i) #
                     (if 0 < i \<and> zs ! i \<noteq> zs ! (i - 1) + 1 then [missing_warning] else []))
                   [0 ..< length zs])))
           = card {i. 0 < i \<and> i < length zs \<and> zs ! i \<noteq> zs ! (i - 1) + 1}" .
qed

text \<open>Contours at Z = 1, 2, 4: one warning, after the third contour's line.\<close>

theorem zlist_warning_exactly_at_gaps_witness:
  "zlist_loop \<lparr>nContours = 3, Contours = [\<lparr>points = [0, 0, 1]\<rparr>, \<lparr>points = [0, 0, 2]\<rparr>,
                  \<lparr>points = [3, 3, 4, 5, 5, 4]\<rparr>]\<rparr> [0 ..< 3] (1, [], [])
     = Inr (4, [1, 2, 4],
            [''Contour: 1, Z: 1'', ''Contour: 2, Z: 2'', ''Contour: 3, Z: 4'',
             ''WARNING: Missing contour''])"
proof -
  let ?obj = "\<lparr>nContours = 3, Contours = [\<lparr>points = [0, 0, 1]\<rparr>, \<lparr>points = [0, 0, 2]\<rparr>,
                  \<lparr>points = [3, 3, 4, 5, 5, 4]\<rparr>]\<rparr>"
  have h1: "nContours ?obj = length [1, 2, 4 :: int]" by simp
  have h2: "length [1, 2, 4 :: int] \<le> length (Contours ?obj)" by simp
  have h3: "\<forall>i < length [1, 2, 4 :: int].
      get_z_from_ImodContour (Contours ?obj ! i) = Inr ([1, 2, 4] ! i, [])"
    by (simp add: get_z_from_ImodContour_def np_unique_def np_eq_scalar_def py_index_def
      int_of_float_def Let_def less_Suc_eq numeral_3_eq_3 all_conj_distrib)
  have s: "str_int 1 = ''1''" "str_int 2 = ''2''" "str_int 3 = ''3''" "str_int 4 = ''4''"
    by code_simp+
  show ?thesis
    using zlist_warning_exactly_at_gaps [OF h1 h2 h3, of 1]
    by (simp add: upt_rec contour_line_def missing_warning_def s)
qed

section \<open>Properties of the intersection block\<close>

lemma concat_rows: "concat (map (\<lambda>i. map (\<lambda>j. h (i * c + j)) [0 ..< c]) [0 ..< r]) = map h [0 ..< r * c]"
proof (induction r)
  case 0
  show ?case by simp
next
  case (Suc r)
  have row: "map (\<lambda>j. h (r * c + j)) [0 ..< c] = map h [r * c ..< r * c + c]"
  proof -
    have "[r * c ..< r * c + c] = map (\<lambda>j. j + r * c) [0 ..< c]"
      by (simp only: map_add_upt add.commute)
    then have "map h [r * c ..< r * c + c] = map h (map (\<lambda>j. j + r * c) [0 ..< c])"
      by (rule arg_cong)
    also have "\<dots> = map (\<lambda>j. h (r * c + j)) [0 ..< c]"
      by (simp only: map_map o_def add.commute)
    finally show ?thesis by (rule sym)
  qed
  have "Suc r * c = r * c + c" by simp
  then have "[0 ..< Suc r * c] = [0 ..< r * c] @ [r * c ..< r * c + c]"
    by (simp only: upt_add_eq_append [OF le0] add_0)
  then show ?case using Suc row by simp
qed

lemma map_nth_pair:
  assumes "length xs = n" "length ys = n"
  shows "map (\<lambda>k. g (xs ! k) (ys ! k)) [0 ..< n] = map2 g xs ys"
  using assms by (simp add: list_eq_iff_nth_eq)

lemma elem_at_plain:
  "i < shape0 a \<Longrightarrow> j < shape1 a \<Longrightarrow> elem_at a i j = elems a ! (i * shape1 a + j)"
proof -
  assume i: "i < shape0 a" and j: "j < shape1 a"
  have "(if shape0 a = 1 then 0 else i) = i" using i by (cases "shape0 a = 1") simp_all
  moreover have "(if shape1 a = 1 then 0 else j) = j" using j by (cases "shape1 a = 1") simp_all
  ultimately show ?thesis by (simp only: elem_at_def)
qed

lemma logical_and_same_shape:
  assumes "shape0 a = r" "shape1 a = c" "shape0 b = r" "shape1 b = c"
    and "wf_ndarray a" "wf_ndarray b"
  shows "logical_and a b
     = Inr \<lparr>shape0 = r, shape1 = c, elems = map2 (\<lambda>x y. x \<noteq> 0 \<and> y \<noteq> 0) (elems a) (elems b)\<rparr>"
proof -
  have "map (\<lambda>i. map (\<lambda>j. elem_at a i j \<noteq> 0 \<and> elem_at b i j \<noteq> 0) [0 ..< c]) [0 ..< r]
      = map (\<lambda>i. map (\<lambda>j. elems a ! (i * c + j) \<noteq> 0 \<and> elems b ! (i * c + j) \<noteq> 0)
           [0 ..< c]) [0 ..< r]"
    using assms(1-4) by (intro map_cong refl) (simp add: elem_at_plain)
  then have "concat (map (\<lambda>i. map (\<lambda>j. elem_at a i j \<noteq> 0 \<and> elem_at b i j \<noteq> 0) [0 ..< c]) [0 ..< r])
      = concat (map (\<lambda>i. map (\<lambda>j. elems a ! (i * c + j) \<noteq> 0 \<and> elems b ! (i * c + j) \<noteq> 0)
           [0 ..< c]) [0 ..< r])"
    by (rule arg_cong)
  also have "\<dots> = map (\<lambda>k. elems a ! k \<noteq> 0 \<and> elems b ! k \<noteq> 0) [0 ..< r * c]"
    by (rule concat_rows)
  also have "\<dots> = map2 (\<lambda>x y. x \<noteq> 0 \<and> y \<noteq> 0) (elems a) (elems b)"
    using assms by (intro map_nth_pair) (simp_all add: wf_ndarray_def)
  finally show ?thesis using assms(1-4) by (simp add: logical_and_def bcast_dim_def)
qed

lemma logical_and_shape:
  assumes "shape0 a = r" "shape1 a = c" "shape0 b = r" "shape1 b = c"
  shows "\<exists>m. logical_and a b = Inr m \<and> shape0 m = r \<and> shape1 m = c"
  using assms by (simp add: logical_and_def bcast_dim_def)


lemma resize_block_shapes:
  assumes "\<forall>img. shape0 (imresize misc img r c) = r \<and> shape1 (imresize misc img r c) = c"
  shows "shape0 (fst (resize_block misc r c imgCell imgOrg)) = r"
    and "shape1 (fst (resize_block misc r c imgCell imgOrg)) = c"
    and "shape0 (snd (resize_block misc r c imgCell imgOrg)) = r"
    and "shape1 (snd (resize_block misc r c imgCell imgOrg)) = c"
  using assms by (simp_all add: resize_block_def Let_def)

lemma intersect_slice_unfold:
  assumes "fs (file_tmp ptmp zi @ ''.tif'') = Some imgCell"
    and "py_index filesOrg (zi - 1) = Inr fileOrg"
    and "fs fileOrg = Some imgOrg"
  shows "intersect_slice misc r c filesOrg ptmp zi fs
     = (case logical_and (fst (resize_block misc r c imgCell imgOrg))
                         (snd (resize_block misc r c imgCell imgOrg)) of
          Inl e \<Rightarrow> Inl e
        | Inr imgMask \<Rightarrow> Inr (fs(file_tmp ptmp zi @ ''.tif'' \<mapsto> imsave_raster misc imgMask)))"
  using assms by (simp add: intersect_slice_def imread_def split: prod.split)

lemma file_tmp_example: "file_tmp ''t'' 1 @ ''.tif'' = ''t/0001.tif''"
  by code_simp

lemma nearest_resize_example:
  "nearest_resize \<lparr>shape0 = 4, shape1 = 2, elems = [0, 5, 0, 0, 7, 0, 0, 0]\<rparr> 2 2
     = \<lparr>shape0 = 2, shape1 = 2, elems = [0, 5, 7, 0]\<rparr>"
  by code_simp

text \<open>
  C5. In the resize block, when the shape of the cell mask differs from the volume's
  (rows, cols), the cell mask is replaced by the organelle image resized to (rows, cols),
  not by the cell mask resized; when the shape of the organelle image differs, the
  organelle image is replaced by itself resized. An image of the right shape is kept. So
  in the loop, for a slice whose cell mask has another shape, the mask saved is the AND
  of the resized organelle image with the organelle image (resized if its shape differs):
  the pixels of the cell mask are not used.
\<close>

theorem resize_block_sources:
  "((shape0 imgCell \<noteq> nRowMrc \<or> shape1 imgCell \<noteq> nColMrc) \<longrightarrow>
      fst (resize_block misc nRowMrc nColMrc imgCell imgOrg) = imresize misc imgOrg nRowMrc nColMrc)
   \<and> ((shape0 imgOrg \<noteq> nRowMrc \<or> shape1 imgOrg \<noteq> nColMrc) \<longrightarrow>
      snd (resize_block misc nRowMrc nColMrc imgCell imgOrg) = imresize misc imgOrg nRowMrc nColMrc)
   \<and> (shape0 imgCell = nRowMrc \<and> shape1 imgCell = nColMrc \<longrightarrow>
      fst (resize_block misc nRowMrc nColMrc imgCell imgOrg) = imgCell)
   \<and> (shape0 imgOrg = nRowMrc \<and> shape1 imgOrg = nColMrc \<longrightarrow>
      snd (resize_block misc nRowMrc nColMrc imgCell imgOrg) = imgOrg)
   \<and> (fs (file_tmp ptmp zi @ ''.tif'') = Some imgCell \<and> py_index filesOrg (zi - 1) = Inr fileOrg
        \<and> fs fileOrg = Some imgOrg
        \<and> (shape0 imgCell \<noteq> nRowMrc \<or> shape1 imgCell \<noteq> nColMrc) \<longrightarrow>
      intersect_slice misc nRowMrc nColMrc filesOrg ptmp zi fs
        = (case logical_and (imresize misc imgOrg nRowMrc nColMrc)
                  (if shape0 imgOrg \<noteq> nRowMrc \<or> shape1 imgOrg \<noteq> nColMrc
                   then imresize misc imgOrg nRowMrc nColMrc else imgOrg) of
             Inl e \<Rightarrow> Inl e
           | Inr imgMask \<Rightarrow>
               Inr (fs(file_tmp ptmp zi @ ''.tif'' \<mapsto> imsave_raster misc imgMask))))"
proof -
  have rb: "resize_block misc nRowMrc nColMrc imgCell imgOrg
      = (if shape0 imgCell \<noteq> nRowMrc \<or> shape1 imgCell \<noteq> nColMrc
         then imresize misc imgOrg nRowMrc nColMrc else imgCell,
         if shape0 imgOrg \<noteq> nRowMrc \<or> shape1 imgOrg \<noteq> nColMrc
         then imresize misc imgOrg nRowMrc nColMrc else imgOrg)"
    by (simp add: resize_block_def Let_def)
  have loop: "intersect_slice misc nRowMrc nColMrc filesOrg ptmp zi fs
        = (case logical_and (imresize misc imgOrg nRowMrc nColMrc)
                  (if shape0 imgOrg \<noteq> nRowMrc \<or> shape1 imgOrg \<noteq> nColMrc
                   then imresize misc imgOrg nRowMrc nColMrc else imgOrg) of
             Inl e \<Rightarrow> Inl e
           | Inr imgMask \<Rightarrow>
               Inr (fs(file_tmp ptmp zi @ ''.tif'' \<mapsto> imsave_raster misc imgMask)))"
    if "fs (file_tmp ptmp zi @ ''.tif'') = Some imgCell" "py_index filesOrg (zi - 1) = Inr fileOrg"
      "fs fileOrg = Some imgOrg" "shape0 imgCell \<noteq> nRowMrc \<or> shape1 imgCell \<noteq> nColMrc"
    using that(4) by (simp only: intersect_slice_unfold [OF that(1-3)] rb fst_conv snd_conv if_True)
  show ?thesis using loop by (simp add: rb)
qed

text \<open>
  A 2 x 3 cell mask and a 4 x 2 organelle image, for a 2 x 2 volume: both results are the
  organelle image resized, and the slice saves the AND of that image with itself. Two
  2 x 2 images are kept.
\<close>

theorem resize_block_sources_witness:
  "fst (resize_block example_misc 2 2 \<lparr>shape0 = 2, shape1 = 3, elems = [9, 9, 9, 9, 9, 9]\<rparr>
          \<lparr>shape0 = 4, shape1 = 2, elems = [0, 5, 0, 0, 7, 0, 0, 0]\<rparr>)
     = \<lparr>shape0 = 2, shape1 = 2, elems = [0, 5, 7, 0]\<rparr>
   \<and> snd (resize_block example_misc 2 2 \<lparr>shape0 = 2, shape1 = 3, elems = [9, 9, 9, 9, 9, 9]\<rparr>
          \<lparr>shape0 = 4, shape1 = 2, elems = [0, 5, 0, 0, 7, 0, 0, 0]\<rparr>)
     = \<lparr>shape0 = 2, shape1 = 2, elems = [0, 5, 7, 0]\<rparr>
   \<and> fst (resize_block example_misc 2 2 \<lparr>shape0 = 2, shape1 = 2, elems = [9, 9, 9, 9]\<rparr>
          \<lparr>shape0 = 2, shape1 = 2, elems = [4, 4, 4, 4]\<rparr>)
     = \<lparr>shape0 = 2, shape1 = 2, elems = [9, 9, 9, 9]\<rparr>
   \<and> snd (resize_block example_misc 2 2 \<lparr>shape0 = 2, shape1 = 2, elems = [9, 9, 9, 9]\<rparr>
          \<lparr>shape0 = 2, shape1 = 2, elems = [4, 4, 4, 4]\<rparr>)
     = \<lparr>shape0 = 2, shape1 = 2, elems = [4, 4, 4, 4]\<rparr>
   \<and> intersect_slice example_misc 2 2 [''seg/a.tif''] ''t'' 1
        [''t/0001.tif'' \<mapsto> \<lparr>shape0 = 2, shape1 = 3, elems = [9, 9, 9, 9, 9, 9]\<rparr>,
         ''seg/a.tif'' \<mapsto> \<lparr>shape0 = 4, shape1 = 2, elems = [0, 5, 0, 0, 7, 0, 0, 0]\<rparr>]
      = Inr ([''t/0001.tif'' \<mapsto> \<lparr>shape0 = 2, shape1 = 3, elems = [9, 9, 9, 9, 9, 9]\<rparr>,
              ''seg/a.tif'' \<mapsto> \<lparr>shape0 = 4, shape1 = 2, elems = [0, 5, 0, 0, 7, 0, 0, 0]\<rparr>,
              ''t/0001.tif'' \<mapsto> \<lparr>shape0 = 2, shape1 = 2, elems = [0, 255, 255, 0]\<rparr>])"
proof -
  let ?cell = "\<lparr>shape0 = 2, shape1 = 3, elems = [9, 9, 9, 9, 9, 9 :: 8 word]\<rparr>"
  let ?org = "\<lparr>shape0 = 4, shape1 = 2, elems = [0, 5, 0, 0, 7, 0, 0, 0 :: 8 word]\<rparr>"
  let ?res = "\<lparr>shape0 = 2, shape1 = 2, elems = [0, 5, 7, 0 :: 8 word]\<rparr>"
  define fs where "fs = [''t/0001.tif'' \<mapsto> ?cell, ''seg/a.tif'' \<mapsto> ?org]"
  have r: "imresize example_misc ?org 2 2 = ?res"
    by (simp only: example_misc_def scipy_misc.simps nearest_resize_example)
  have h1: "fs (file_tmp ''t'' 1 @ ''.tif'') = Some ?cell"
    by (simp add: file_tmp_example fs_def)
  have h2: "py_index [''seg/a.tif''] (1 - 1) = Inr ''seg/a.tif''"
    by (simp add: py_index_def)
  have h3: "fs ''seg/a.tif'' = Some ?org" by (simp add: fs_def)
  have la: "logical_and ?res ?res
      = Inr \<lparr>shape0 = 2, shape1 = 2, elems = [False, True, True, False]\<rparr>"
    by code_simp
  note t = resize_block_sources [of ?cell 2 2 example_misc ?org fs "''t''" 1
      "[''seg/a.tif'']" "''seg/a.tif''"]
  have A: "fst (resize_block example_misc 2 2 ?cell ?org) = ?res
      \<and> snd (resize_block example_misc 2 2 ?cell ?org) = ?res"
    using t by (simp add: r)
  have mm: "shape0 ?cell \<noteq> 2 \<or> shape1 ?cell \<noteq> 2" by simp
  from t h1 h2 h3 mm
  have "intersect_slice example_misc 2 2 [''seg/a.tif''] ''t'' 1 fs
        = (case logical_and (imresize example_misc ?org 2 2)
                  (if shape0 ?org \<noteq> 2 \<or> shape1 ?org \<noteq> 2
                   then imresize example_misc ?org 2 2 else ?org) of
             Inl e \<Rightarrow> Inl e
           | Inr imgMask \<Rightarrow>
               Inr (fs(file_tmp ''t'' 1 @ ''.tif'' \<mapsto> imsave_raster example_misc imgMask)))"
    by blast
  then have "intersect_slice example_misc 2 2 [''seg/a.tif''] ''t'' 1 fs
        = Inr (fs(''t/0001.tif'' \<mapsto> imsave_raster example_misc
                 \<lparr>shape0 = 2, shape1 = 2, elems = [False, True, True, False]\<rparr>))"
    by (simp add: r la file_tmp_example)
  then have B: "intersect_slice example_misc 2 2 [''seg/a.tif''] ''t'' 1 fs
      = Inr (fs(''t/0001.tif'' \<mapsto> \<lparr>shape0 = 2, shape1 = 2, elems = [0, 255, 255, 0]\<rparr>))"
    by (simp add: example_misc_def bool_raster_def)
  have C: "fst (resize_block example_misc 2 2 \<lparr>shape0 = 2, shape1 = 2, elems = [9, 9, 9, 9]\<rparr>
          \<lparr>shape0 = 2, shape1 = 2, elems = [4, 4, 4, 4]\<rparr>)
       = \<lparr>shape0 = 2, shape1 = 2, elems = [9, 9, 9, 9]\<rparr>
     \<and> snd (resize_block example_misc 2 2 \<lparr>shape0 = 2, shape1 = 2, elems = [9, 9, 9, 9]\<rparr>
          \<lparr>shape0 = 2, shape1 = 2, elems = [4, 4, 4, 4]\<rparr>)
       = \<lparr>shape0 = 2, shape1 = 2, elems = [4, 4, 4, 4]\<rparr>"
    using resize_block_sources [of "\<lparr>shape0 = 2, shape1 = 2, elems = [9, 9, 9, 9]\<rparr>" 2 2
        example_misc "\<lparr>shape0 = 2, shape1 = 2, elems = [4, 4, 4, 4]\<rparr>"]
    by simp
  from A B [unfolded fs_def] C show ?thesis by blast
qed

text \<open>
  C3. For a slice whose cell mask is stored at \<^verbatim>\<open>file_tmp + '.tif'\<close> and whose organelle image
  is the file \<^verbatim>\<open>filesOrg[zi - 1]\<close>: if both rasters have the volume's shape (rows, cols),
  the block stores, at the path of the cell mask, the 8-bit raster \<^verbatim>\<open>imsave\<close> makes of their
  elementwise logical AND; and whenever \<^verbatim>\<open>imresize\<close> returns the shape asked for, the block
  stores at that path the raster of a mask of shape (rows, cols), which is the AND of
  the two images after the resize block. No other path changes.
\<close>

theorem intersect_slice_mask:
  assumes "fs (file_tmp ptmp zi @ ''.tif'') = Some imgCell"
    and "py_index filesOrg (zi - 1) = Inr fileOrg"
    and "fs fileOrg = Some imgOrg"
  shows "(shape0 imgCell = r \<and> shape1 imgCell = c \<and> shape0 imgOrg = r \<and> shape1 imgOrg = c
          \<and> wf_ndarray imgCell \<and> wf_ndarray imgOrg \<longrightarrow>
            intersect_slice misc r c filesOrg ptmp zi fs
              = Inr (fs(file_tmp ptmp zi @ ''.tif'' \<mapsto>
                       imsave_raster misc
                         \<lparr>shape0 = r, shape1 = c,
                          elems = map2 (\<lambda>x y. x \<noteq> 0 \<and> y \<noteq> 0) (elems imgCell) (elems imgOrg)\<rparr>)))
       \<and> ((\<forall>img. shape0 (imresize misc img r c) = r \<and> shape1 (imresize misc img r c) = c) \<longrightarrow>
            (\<exists>m. intersect_slice misc r c filesOrg ptmp zi fs
                    = Inr (fs(file_tmp ptmp zi @ ''.tif'' \<mapsto> imsave_raster misc m))
                \<and> shape0 m = r \<and> shape1 m = c
                \<and> logical_and (fst (resize_block misc r c imgCell imgOrg))
                               (snd (resize_block misc r c imgCell imgOrg)) = Inr m))"
proof (intro conjI impI)
  assume a: "shape0 imgCell = r \<and> shape1 imgCell = c \<and> shape0 imgOrg = r \<and> shape1 imgOrg = c
          \<and> wf_ndarray imgCell \<and> wf_ndarray imgOrg"
  then have rb: "resize_block misc r c imgCell imgOrg = (imgCell, imgOrg)"
    by (simp add: resize_block_def)
  have "logical_and imgCell imgOrg
     = Inr \<lparr>shape0 = r, shape1 = c,
            elems = map2 (\<lambda>x y. x \<noteq> 0 \<and> y \<noteq> 0) (elems imgCell) (elems imgOrg)\<rparr>"
    using a by (intro logical_and_same_shape) simp_all
  then show "intersect_slice misc r c filesOrg ptmp zi fs
              = Inr (fs(file_tmp ptmp zi @ ''.tif'' \<mapsto>
                       imsave_raster misc
                         \<lparr>shape0 = r, shape1 = c,
                          elems = map2 (\<lambda>x y. x \<noteq> 0 \<and> y \<noteq> 0) (elems imgCell) (elems imgOrg)\<rparr>))"
    by (simp add: intersect_slice_unfold [OF assms] rb)
next
  assume "\<forall>img. shape0 (imresize misc img r c) = r \<and> shape1 (imresize misc img r c) = c"
  note sh = resize_block_shapes [OF this, of imgCell imgOrg]
  obtain m where m: "logical_and (fst (resize_block misc r c imgCell imgOrg))
                               (snd (resize_block misc r c imgCell imgOrg)) = Inr m"
      "shape0 m = r" "shape1 m = c"
    using logical_and_shape [OF sh] by blast
  then show "\<exists>m. intersect_slice misc r c filesOrg ptmp zi fs
                    = Inr (fs(file_tmp ptmp zi @ ''.tif'' \<mapsto> imsave_raster misc m))
                \<and> shape0 m = r \<and> shape1 m = c
                \<and> logical_and (fst (resize_block misc r c imgCell imgOrg))
                               (snd (resize_block misc r c imgCell imgOrg)) = Inr m"
    by (simp add: intersect_slice_unfold [OF assms])
qed


text \<open>
  Two 2 x 2 rasters, and then the 2 x 3 cell mask with the 4 x 2 organelle image of the
  example above, for a 2 x 2 volume.
\<close>

theorem intersect_slice_mask_witness:
  "intersect_slice example_misc 2 2 [''seg/a.tif''] ''t'' 1
     [''t/0001.tif'' \<mapsto> \<lparr>shape0 = 2, shape1 = 2, elems = [1, 0, 1, 0]\<rparr>,
      ''seg/a.tif'' \<mapsto> \<lparr>shape0 = 2, shape1 = 2, elems = [1, 1, 0, 0]\<rparr>]
   = Inr ([''t/0001.tif'' \<mapsto> \<lparr>shape0 = 2, shape1 = 2, elems = [1, 0, 1, 0]\<rparr>,
           ''seg/a.tif'' \<mapsto> \<lparr>shape0 = 2, shape1 = 2, elems = [1, 1, 0, 0]\<rparr>,
           ''t/0001.tif'' \<mapsto> \<lparr>shape0 = 2, shape1 = 2, elems = [255, 0, 0, 0]\<rparr>])
   \<and> intersect_slice example_misc 2 2 [''seg/a.tif''] ''t'' 1
     [''t/0001.tif'' \<mapsto> \<lparr>shape0 = 2, shape1 = 3, elems = [9, 9, 9, 9, 9, 9]\<rparr>,
      ''seg/a.tif'' \<mapsto> \<lparr>shape0 = 4, shape1 = 2, elems = [0, 5, 0, 0, 7, 0, 0, 0]\<rparr>]
   = Inr ([''t/0001.tif'' \<mapsto> \<lparr>shape0 = 2, shape1 = 3, elems = [9, 9, 9, 9, 9, 9]\<rparr>,
           ''seg/a.tif'' \<mapsto> \<lparr>shape0 = 4, shape1 = 2, elems = [0, 5, 0, 0, 7, 0, 0, 0]\<rparr>,
           ''t/0001.tif'' \<mapsto> \<lparr>shape0 = 2, shape1 = 2, elems = [0, 255, 255, 0]\<rparr>])"
proof -
  let ?cellA = "\<lparr>shape0 = 2, shape1 = 2, elems = [1, 0, 1, 0 :: 8 word]\<rparr>"
  let ?orgA = "\<lparr>shape0 = 2, shape1 = 2, elems = [1, 1, 0, 0 :: 8 word]\<rparr>"
  define fsA where "fsA = [''t/0001.tif'' \<mapsto> ?cellA, ''seg/a.tif'' \<mapsto> ?orgA]"
  let ?cellB = "\<lparr>shape0 = 2, shape1 = 3, elems = [9, 9, 9, 9, 9, 9 :: 8 word]\<rparr>"
  let ?orgB = "\<lparr>shape0 = 4, shape1 = 2, elems = [0, 5, 0, 0, 7, 0, 0, 0 :: 8 word]\<rparr>"
  let ?res = "\<lparr>shape0 = 2, shape1 = 2, elems = [0, 5, 7, 0 :: 8 word]\<rparr>"
  define fsB where "fsB = [''t/0001.tif'' \<mapsto> ?cellB, ''seg/a.tif'' \<mapsto> ?orgB]"
  have h2: "py_index [''seg/a.tif''] (1 - 1) = Inr ''seg/a.tif''"
    by (simp add: py_index_def)
  have a1: "fsA (file_tmp ''t'' 1 @ ''.tif'') = Some ?cellA"
    by (simp add: file_tmp_example fsA_def)
  have a3: "fsA ''seg/a.tif'' = Some ?orgA" by (simp add: fsA_def)
  have n: "shape0 ?cellA = 2 \<and> shape1 ?cellA = 2 \<and> shape0 ?orgA = 2 \<and> shape1 ?orgA = 2
      \<and> wf_ndarray ?cellA \<and> wf_ndarray ?orgA"
    by (simp add: wf_ndarray_def)
  from intersect_slice_mask [OF a1 h2 a3, of 2 2 example_misc] n
  have A: "intersect_slice example_misc 2 2 [''seg/a.tif''] ''t'' 1 fsA
     = Inr (fsA(''t/0001.tif'' \<mapsto> \<lparr>shape0 = 2, shape1 = 2, elems = [255, 0, 0, 0]\<rparr>))"
    by (simp add: file_tmp_example example_misc_def bool_raster_def)
  have b1: "fsB (file_tmp ''t'' 1 @ ''.tif'') = Some ?cellB"
    by (simp add: file_tmp_example fsB_def)
  have b3: "fsB ''seg/a.tif'' = Some ?orgB" by (simp add: fsB_def)
  have c: "\<forall>img. shape0 (imresize example_misc img 2 2) = 2
                \<and> shape1 (imresize example_misc img 2 2) = 2"
    by (simp add: example_misc_def nearest_resize_def)
  have rb: "resize_block example_misc 2 2 ?cellB ?orgB = (?res, ?res)"
    by (simp add: resize_block_def example_misc_def nearest_resize_example)
  have la: "logical_and ?res ?res
      = Inr \<lparr>shape0 = 2, shape1 = 2, elems = [False, True, True, False]\<rparr>"
    by code_simp
  from intersect_slice_mask [OF b1 h2 b3, of 2 2 example_misc] c
  obtain m where m: "intersect_slice example_misc 2 2 [''seg/a.tif''] ''t'' 1 fsB
                    = Inr (fsB(file_tmp ''t'' 1 @ ''.tif'' \<mapsto> imsave_raster example_misc m))"
     "logical_and (fst (resize_block example_misc 2 2 ?cellB ?orgB))
                               (snd (resize_block example_misc 2 2 ?cellB ?orgB)) = Inr m"
    by blast
  from m(2) have "m = \<lparr>shape0 = 2, shape1 = 2, elems = [False, True, True, False]\<rparr>"
    by (simp add: rb la)
  with m(1) have B: "intersect_slice example_misc 2 2 [''seg/a.tif''] ''t'' 1 fsB
     = Inr (fsB(''t/0001.tif'' \<mapsto> \<lparr>shape0 = 2, shape1 = 2, elems = [0, 255, 255, 0]\<rparr>))"
    by (simp add: file_tmp_example example_misc_def bool_raster_def)
  from A [unfolded fsA_def] B [unfolded fsB_def] show ?thesis by (rule conjI)
qed

lemma py_index_minus_one: "xs \<noteq> [] \<Longrightarrow> py_index xs (0 - 1) = Inr (last xs)"
proof -
  assume ne: "xs \<noteq> []"
  then obtain n where n: "length xs = Suc n" by (cases xs) auto
  have "py_index xs (0 - 1) = Inr (xs ! n)" by (simp add: py_index_def n)
  moreover have "last xs = xs ! n" using ne n by (simp add: last_conv_nth)
  ultimately show ?thesis by simp
qed

lemma sort_nonempty: "xs \<noteq> [] \<Longrightarrow> sort xs \<noteq> []"
proof
  assume "xs \<noteq> []" "sort xs = []"
  then have "length (sort xs) = 0" by simp
  then have "length xs = 0" by (simp only: length_sort)
  with \<open>xs \<noteq> []\<close> show False by simp
qed

lemma last_sorted_Max:
  fixes xs :: "'a::linorder list"
  assumes "xs \<noteq> []" "sorted xs"
  shows "last xs = Max (set xs)"
proof (rule sym, rule Max_eqI)
  show "finite (set xs)" by simp
  show "last xs \<in> set xs" using assms(1) by simp
  fix y assume "y \<in> set xs"
  then obtain i where i: "i < length xs" "xs ! i = y" by (auto simp: in_set_conv_nth)
  then have "xs ! i \<le> xs ! (length xs - 1)"
    using assms by (intro sorted_nth_mono) auto
  then show "y \<le> last xs" using i assms(1) by (simp add: last_conv_nth)
qed

lemma last_sorted_listing:
  "globbed \<noteq> [] \<Longrightarrow> last (sorted_listing globbed) = Max (set globbed)"
  using last_sorted_Max [of "sort globbed"] sort_nonempty [of globbed]
  by (simp add: sorted_listing_def)

text \<open>
  C10, as amended. If \<^verbatim>\<open>zlist\<close> contains 0 and the listing of the segmentation directory is
  not empty, \<^verbatim>\<open>filesOrg[zi - 1]\<close> is \<^verbatim>\<open>filesOrg[-1]\<close>, the greatest path of the listing in the
  lexicographic order, and the block uses the image stored there as the organelle image
  of the slice.
\<close>

theorem zi_zero_reads_last_file:
  assumes "globbed \<noteq> []"
    and "fs (file_tmp ptmp 0 @ ''.tif'') = Some imgCell"
    and "fs (Max (set globbed)) = Some imgOrg"
  shows "py_index (sorted_listing globbed) (0 - 1) = Inr (Max (set globbed))
       \<and> intersect_slice misc r c (sorted_listing globbed) ptmp 0 fs
           = (case logical_and (fst (resize_block misc r c imgCell imgOrg))
                               (snd (resize_block misc r c imgCell imgOrg)) of
                Inl e \<Rightarrow> Inl e
              | Inr imgMask \<Rightarrow>
                  Inr (fs(file_tmp ptmp 0 @ ''.tif'' \<mapsto> imsave_raster misc imgMask)))"
proof -
  have ne: "sorted_listing globbed \<noteq> []" using assms(1) by (simp add: sorted_listing_def sort_nonempty)
  have idx: "py_index (sorted_listing globbed) (0 - 1) = Inr (Max (set globbed))"
    using py_index_minus_one [OF ne] last_sorted_listing [OF assms(1)] by simp
  show ?thesis
    using idx intersect_slice_unfold [OF assms(2) idx assms(3)] by simp
qed

text \<open>
  The claim as stated, without the condition on the listing, fails: with an empty
  segmentation directory the lookup for \<open>zi = 0\<close> raises IndexError.
\<close>

theorem zi_zero_empty_listing_fails:
  "intersect_slice example_misc 2 2 (sorted_listing []) ''t'' 0
     [''t/0000.tif'' \<mapsto> \<lparr>shape0 = 2, shape1 = 2, elems = [1, 0, 1, 0]\<rparr>] = Inl IndexError"
proof -
  have "file_tmp ''t'' 0 @ ''.tif'' = ''t/0000.tif''" by code_simp
  then show ?thesis
    by (simp add: intersect_slice_def imread_def sorted_listing_def py_index_def)
qed

text \<open>A directory of two files, read for \<open>zi = 0\<close>: the image of the second is used.\<close>

theorem zi_zero_reads_last_file_witness:
  "py_index (sorted_listing [''seg/b.tif'', ''seg/a.tif'']) (0 - 1) = Inr ''seg/b.tif''
   \<and> intersect_slice example_misc 2 2 (sorted_listing [''seg/b.tif'', ''seg/a.tif'']) ''t'' 0
        [''t/0000.tif'' \<mapsto> \<lparr>shape0 = 2, shape1 = 2, elems = [1, 0, 1, 0]\<rparr>,
         ''seg/a.tif'' \<mapsto> \<lparr>shape0 = 2, shape1 = 2, elems = [0, 0, 0, 0]\<rparr>,
         ''seg/b.tif'' \<mapsto> \<lparr>shape0 = 2, shape1 = 2, elems = [1, 1, 0, 0]\<rparr>]
     = Inr ([''t/0000.tif'' \<mapsto> \<lparr>shape0 = 2, shape1 = 2, elems = [1, 0, 1, 0]\<rparr>,
         ''seg/a.tif'' \<mapsto> \<lparr>shape0 = 2, shape1 = 2, elems = [0, 0, 0, 0]\<rparr>,
         ''seg/b.tif'' \<mapsto> \<lparr>shape0 = 2, shape1 = 2, elems = [1, 1, 0, 0]\<rparr>,
         ''t/0000.tif'' \<mapsto> \<lparr>shape0 = 2, shape1 = 2, elems = [255, 0, 0, 0]\<rparr>])"
proof -
  let ?cell = "\<lparr>shape0 = 2, shape1 = 2, elems = [1, 0, 1, 0 :: 8 word]\<rparr>"
  let ?org = "\<lparr>shape0 = 2, shape1 = 2, elems = [1, 1, 0, 0 :: 8 word]\<rparr>"
  define fs where "fs = [''t/0000.tif'' \<mapsto> ?cell,
         ''seg/a.tif'' \<mapsto> \<lparr>shape0 = 2, shape1 = 2, elems = [0, 0, 0, 0]\<rparr>,
         ''seg/b.tif'' \<mapsto> ?org]"
  have ft: "file_tmp ''t'' 0 @ ''.tif'' = ''t/0000.tif''" by code_simp
  have mx: "Max (set [''seg/b.tif'', ''seg/a.tif'']) = ''seg/b.tif''" by simp
  have h1: "[''seg/b.tif'', ''seg/a.tif''] \<noteq> []" by simp
  have h2: "fs (file_tmp ''t'' 0 @ ''.tif'') = Some ?cell" by (simp add: ft fs_def)
  have h3: "fs (Max (set [''seg/b.tif'', ''seg/a.tif''])) = Some ?org"
    by (simp only: mx) (simp add: fs_def)
  have la: "logical_and ?cell ?org
      = Inr \<lparr>shape0 = 2, shape1 = 2, elems = [True, False, False, False]\<rparr>"
    by code_simp
  have "py_index (sorted_listing [''seg/b.tif'', ''seg/a.tif'']) (0 - 1) = Inr ''seg/b.tif''
   \<and> intersect_slice example_misc 2 2 (sorted_listing [''seg/b.tif'', ''seg/a.tif'']) ''t'' 0 fs
     = Inr (fs(''t/0000.tif'' \<mapsto> \<lparr>shape0 = 2, shape1 = 2, elems = [255, 0, 0, 0]\<rparr>))"
    using zi_zero_reads_last_file [OF h1 h2 h3, of example_misc 2 2]
    by (simp add: mx ft resize_block_def la example_misc_def bool_raster_def)
  then show ?thesis unfolding fs_def .
qed

section \<open>Properties of the validation\<close>

lemma check_args_invalid:
  assumes "length args \<noteq> 3 \<or> \<not> isfile os (args ! 0) \<or> \<not> isfile os (args ! 1)
           \<or> \<not> isdir os (args ! 2)"
  shows "\<exists>errstr. check_args os help args = Inl (usage help errstr)"
  using assms by (auto simp: check_args_def Let_def)

lemma check_args_valid:
  assumes "length args = 3" "isfile os (args ! 0)" "isfile os (args ! 1)" "isdir os (args ! 2)"
  shows "check_args os help args = Inr (args ! 0, args ! 1, args ! 2)"
  using assms by (simp add: check_args_def Let_def)

lemma validate_invalid:
  assumes "length args \<noteq> 3 \<or> \<not> isfile os (args ! 0) \<or> \<not> isfile os (args ! 1)
           \<or> \<not> isdir os (args ! 2) \<or> \<not> isdir os (resolve_path_out os opt)
           \<or> isdir os (os_path_join (resolve_path_out os opt) ''tmp'')"
  shows "\<exists>errstr. validate os help opt args = Inl (usage help errstr)"
proof (cases "length args \<noteq> 3 \<or> \<not> isfile os (args ! 0) \<or> \<not> isfile os (args ! 1)
           \<or> \<not> isdir os (args ! 2)")
  case True
  from check_args_invalid [OF this] obtain errstr
    where "check_args os help args = Inl (usage help errstr)" by blast
  then have "validate os help opt args = Inl (usage help errstr)" by (simp add: validate_def)
  then show ?thesis by blast
next
  case False
  then have "check_args os help args = Inr (args ! 0, args ! 1, args ! 2)"
    by (intro check_args_valid) auto
  moreover have "\<not> isdir os (resolve_path_out os opt)
           \<or> isdir os (os_path_join (resolve_path_out os opt) ''tmp'')"
    using assms False by blast
  ultimately show ?thesis by (auto simp: validate_def Let_def)
qed

lemma validate_valid:
  assumes "length args = 3" "isfile os (args ! 0)" "isfile os (args ! 1)" "isdir os (args ! 2)"
    and "isdir os (resolve_path_out os opt)"
    and "\<not> isdir os (os_path_join (resolve_path_out os opt) ''tmp'')"
  shows "validate os help opt args
    = Inr \<lparr>file_mrc = args ! 0, file_mod = args ! 1, path_seg = args ! 2,
           out_dir = resolve_path_out os opt,
           path_tmp = os_path_join (resolve_path_out os opt) ''tmp''\<rparr>"
  using assms by (simp add: validate_def check_args_valid Let_def)

text \<open>
  C6. Given the options and positional arguments optparse hands over: if the number of
  positional arguments is not 3, or the volume file or the model file is not a file, or
  the segmentation directory or the output path is not a directory, or the output path
  already holds a directory \<^verbatim>\<open>tmp\<close>, then the run ends with exit status 1 after printing the
  usage text with an error line, whatever the rest of the script (creating the directory,
  loading the model, the slices) would do: it is not run.
\<close>

theorem invalid_invocation_exits_1:
  assumes "length args \<noteq> 3 \<or> \<not> isfile os (args ! 0) \<or> \<not> isfile os (args ! 1)
           \<or> \<not> isdir os (args ! 2) \<or> \<not> isdir os (resolve_path_out os opt)
           \<or> isdir os (os_path_join (resolve_path_out os opt) ''tmp'')"
  shows "\<exists>errstr. main os help opt args rest
            = Inl (SystemExit 1 ([[]] @ help @ [[], ''ERROR: '' @ errstr, []]))"
proof -
  from validate_invalid [OF assms] obtain errstr
    where "validate os help opt args = Inl (usage help errstr)" by blast
  then have "main os help opt args rest = Inl (usage help errstr)"
    by (simp add: main_def)
  then show ?thesis by (auto simp: usage_def)
qed

text \<open>A run whose output path already holds \<^verbatim>\<open>tmp\<close>.\<close>

theorem invalid_invocation_exits_1_witness:
  "(\<exists>errstr. main \<lparr>isfile = (\<lambda>p. p \<in> set [''v.mrc'', ''c.mod'']),
                    isdir = (\<lambda>p. p \<in> set [''seg'', ''/w'', ''/w/tmp'']), getcwd = ''/w''\<rparr>
          [''help'']
          \<lparr>path_out = None, runPostprocessing = False, slicesToSkipOrganelle = OptInt 4,
            filterByNContours = OptInt 0, mergeAll = False, color = None, name = None\<rparr>
          [''v.mrc'', ''c.mod'', ''seg''] (\<lambda>paths. Inr paths)
        = Inl (SystemExit 1 ([[]] @ [''help''] @ [[], ''ERROR: '' @ errstr, []])))
   \<and> main \<lparr>isfile = (\<lambda>p. p \<in> set [''v.mrc'', ''c.mod'']),
                    isdir = (\<lambda>p. p \<in> set [''seg'', ''/w'', ''/w/tmp'']), getcwd = ''/w''\<rparr>
          [''help'']
          \<lparr>path_out = None, runPostprocessing = False, slicesToSkipOrganelle = OptInt 4,
            filterByNContours = OptInt 0, mergeAll = False, color = None, name = None\<rparr>
          [''v.mrc'', ''c.mod'', ''seg''] (\<lambda>paths. Inr paths)
        = Inl (SystemExit 1 ['''', ''help'', '''',
             ''ERROR: There is already a folder with the name tmp in the output path /w'', ''''])"
proof
  let ?os = "\<lparr>isfile = (\<lambda>p. p \<in> set [''v.mrc'', ''c.mod'']),
                    isdir = (\<lambda>p. p \<in> set [''seg'', ''/w'', ''/w/tmp'']), getcwd = ''/w''\<rparr>"
  let ?opt = "\<lparr>path_out = None, runPostprocessing = False, slicesToSkipOrganelle = OptInt 4,
            filterByNContours = OptInt 0, mergeAll = False, color = None, name = None\<rparr>"
  have j: "os_path_join (resolve_path_out ?os ?opt) ''tmp'' = ''/w/tmp''"
    by (simp add: os_path_join_def resolve_path_out_def)
  have h: "length [''v.mrc'', ''c.mod'', ''seg''] \<noteq> 3
       \<or> \<not> isfile ?os ([''v.mrc'', ''c.mod'', ''seg''] ! 0)
       \<or> \<not> isfile ?os ([''v.mrc'', ''c.mod'', ''seg''] ! 1)
       \<or> \<not> isdir ?os ([''v.mrc'', ''c.mod'', ''seg''] ! 2)
       \<or> \<not> isdir ?os (resolve_path_out ?os ?opt)
       \<or> isdir ?os (os_path_join (resolve_path_out ?os ?opt) ''tmp'')"
    by (simp only: j) simp
  show "\<exists>errstr. main ?os [''help''] ?opt [''v.mrc'', ''c.mod'', ''seg''] (\<lambda>paths. Inr paths)
        = Inl (SystemExit 1 ([[]] @ [''help''] @ [[], ''ERROR: '' @ errstr, []]))"
    by (rule invalid_invocation_exits_1 [OF h])
  show "main ?os [''help''] ?opt [''v.mrc'', ''c.mod'', ''seg''] (\<lambda>paths. Inr paths)
        = Inl (SystemExit 1 ['''', ''help'', '''',
             ''ERROR: There is already a folder with the name tmp in the output path /w'', ''''])"
    by (simp add: main_def validate_def check_args_def usage_def Let_def
        os_path_join_def resolve_path_out_def)
qed

section \<open>Properties of the output files\<close>

lemma os_path_join_prefix:
  "b = [] \<or> hd b \<noteq> CHR ''/'' \<Longrightarrow> prefix a (os_path_join a b)"
  by (auto simp: os_path_join_def)

lemma file_out_under:
  "prefix pout (file_out (os_path_join pout ''tmp'') @ ext)"
proof -
  have "prefix pout (os_path_join pout ''tmp'')"
    by (rule os_path_join_prefix) simp
  moreover have "prefix (os_path_join pout ''tmp'') (file_out (os_path_join pout ''tmp''))"
    unfolding file_out_def by (rule os_path_join_prefix) simp
  ultimately have "prefix pout (file_out (os_path_join pout ''tmp''))"
    by (rule prefix_order.trans)
  then show ?thesis by (rule prefix_prefix)
qed

lemma validate_path_tmp:
  assumes "validate os help opt args = Inr paths"
  shows "path_tmp paths = os_path_join (resolve_path_out os opt) ''tmp''"
  using assms
  by (auto simp: validate_def Let_def split: sum.splits if_splits)

lemma assemble_files:
  "assemble tools paths outfile fs (file_out (path_tmp paths) @ ''.mod'')
     = (case point2model tools (file_mrc paths) (listing_file outfile) of
          None \<Rightarrow> fs (file_out (path_tmp paths) @ ''.mod'')
        | Some m \<Rightarrow> Some m)"
  "p \<noteq> file_out (path_tmp paths) @ ''.mod'' \<Longrightarrow> assemble tools paths outfile fs p = fs p"
  by (simp_all add: assemble_def split: option.splits)

text \<open>The steps of postprocessing, one by one.\<close>

lemma postprocess_steps:
  assumes "postprocess tools opt fout fs = Inr fs'" and "runPostprocessing opt"
  shows "\<exists>m0 m1 s1 m2 s2 m3 s3 m4 m6 s6 m7 s7.
           fs (fout @ ''.mod'') = Some m0
         \<and> ImodCmd tools m0 ''imodmesh -e'' fs = (m1, s1)
         \<and> ImodCmd tools m1
              (''imodmesh -CTs -P '' @ str_of_optval (slicesToSkipOrganelle opt)) s1 = (m2, s2)
         \<and> ImodCmd tools m2 ''imodsortsurf -s'' s2 = (m3, s3)
         \<and> filter_step opt m3 = Inr m4
         \<and> ImodCmd tools
              (if mergeAll opt then moveObjects tools m4 1 (''2-'' @ str_int (int (nObjects m4)))
               else m4) ''imodmesh -e'' s3 = (m6, s6)
         \<and> ImodCmd tools m6
              (''imodmesh -CTs -P '' @ str_of_optval (slicesToSkipOrganelle opt)) s6 = (m7, s7)
         \<and> fs' = s7(fout @ ''_postprocessed.mod'' \<mapsto>
                    (case name opt of
                       None \<Rightarrow> (case color opt of
                                  None \<Rightarrow> m7
                                | Some c \<Rightarrow> if c \<noteq> [] then setAll_color tools m7 c else m7)
                     | Some n \<Rightarrow>
                         if n \<noteq> []
                         then setAll_name tools
                                (case color opt of
                                   None \<Rightarrow> m7
                                 | Some c \<Rightarrow> if c \<noteq> [] then setAll_color tools m7 c else m7) n
                         else (case color opt of
                                 None \<Rightarrow> m7
                               | Some c \<Rightarrow> if c \<noteq> [] then setAll_color tools m7 c else m7)))"
  using assms
  by (auto simp: postprocess_def remesh_def merge_step_def set_if_given_def
      split: option.splits sum.splits prod.splits if_splits)

lemma postprocess_frame:
  assumes "postprocess tools opt fout fs = Inr fs'"
    and "\<forall>m cmd s. snd (ImodCmd tools m cmd s) p = s p"
    and "p \<noteq> fout @ ''_postprocessed.mod''"
  shows "fs' p = fs p"
proof (cases "runPostprocessing opt")
  case False
  then show ?thesis using assms(1) by (simp add: postprocess_def)
next
  case True
  have k: "ImodCmd tools m cmd s = (m', s') \<Longrightarrow> s' p = s p" for m cmd s m' s'
    using assms(2) by (metis snd_conv)
  from postprocess_steps [OF assms(1) True] obtain m0 m1 s1 m2 s2 m3 s3 m4 m6 s6 m7 s7 m9 where
    c1: "ImodCmd tools m0 ''imodmesh -e'' fs = (m1, s1)"
    and c2: "ImodCmd tools m1
              (''imodmesh -CTs -P '' @ str_of_optval (slicesToSkipOrganelle opt)) s1 = (m2, s2)"
    and c3: "ImodCmd tools m2 ''imodsortsurf -s'' s2 = (m3, s3)"
    and c4: "ImodCmd tools
              (if mergeAll opt then moveObjects tools m4 1 (''2-'' @ str_int (int (nObjects m4)))
               else m4) ''imodmesh -e'' s3 = (m6, s6)"
    and c5: "ImodCmd tools m6
              (''imodmesh -CTs -P '' @ str_of_optval (slicesToSkipOrganelle opt)) s6 = (m7, s7)"
    and f: "fs' = s7(fout @ ''_postprocessed.mod'' \<mapsto> m9)"
    by blast
  have "fs' p = s7 p" using f assms(3) by simp
  also have "\<dots> = s6 p" by (rule k [OF c5])
  also have "\<dots> = s3 p" by (rule k [OF c4])
  also have "\<dots> = s2 p" by (rule k [OF c3])
  also have "\<dots> = s1 p" by (rule k [OF c2])
  also have "\<dots> = fs p" by (rule k [OF c1])
  finally show ?thesis .
qed

text \<open>
  C7. With validated paths, \<^verbatim>\<open>file_out\<close> is \<^verbatim>\<open>out\<close> in the directory \<^verbatim>\<open>tmp\<close> of the resolved
  output path, so \<^verbatim>\<open>out.mod\<close> and \<^verbatim>\<open>out_postprocessed.mod\<close> lie under that path.
  \<^verbatim>\<open>point2model\<close> is run on the accumulator: \<^verbatim>\<open>out.mod\<close> holds the model it writes, and is as
  before when it writes none; no other model file changes. When postprocessing runs and
  returns, it has read the model of \<^verbatim>\<open>out.mod\<close>, run \<^verbatim>\<open>imodmesh -e\<close>, \<^verbatim>\<open>imodmesh -CTs -P\<close> and
  \<^verbatim>\<open>imodsortsurf -s\<close> on it, filtered it, merged it if asked, run \<^verbatim>\<open>imodmesh -e\<close> and
  \<^verbatim>\<open>imodmesh -CTs -P\<close> again, set colour and name if given, and stored that model at
  \<^verbatim>\<open>out_postprocessed.mod\<close>, in the model files the last command left. Without
  postprocessing the model files are those after \<^verbatim>\<open>point2model\<close>. The one write of the
  script in postprocessing goes to \<^verbatim>\<open>out_postprocessed.mod\<close>: any other file that \<^verbatim>\<open>ImodCmd\<close>
  leaves alone is as it was before postprocessing, and so is \<^verbatim>\<open>out.mod\<close> when \<^verbatim>\<open>ImodCmd\<close>
  leaves it alone.
\<close>

theorem output_files:
  assumes "validate os help opt args = Inr paths"
    and "write_output tools opt paths outfile fs = Inr fs'"
  shows "file_out (path_tmp paths)
           = os_path_join (os_path_join (resolve_path_out os opt) ''tmp'') ''out''
       \<and> prefix (resolve_path_out os opt) (file_out (path_tmp paths) @ ''.mod'')
       \<and> prefix (resolve_path_out os opt) (file_out (path_tmp paths) @ ''_postprocessed.mod'')
       \<and> assemble tools paths outfile fs (file_out (path_tmp paths) @ ''.mod'')
           = (case point2model tools (file_mrc paths) (listing_file outfile) of
                None \<Rightarrow> fs (file_out (path_tmp paths) @ ''.mod'')
              | Some m \<Rightarrow> Some m)
       \<and> (\<forall>p. p \<noteq> file_out (path_tmp paths) @ ''.mod'' \<longrightarrow>
              assemble tools paths outfile fs p = fs p)
       \<and> (runPostprocessing opt \<longrightarrow>
            (\<exists>m0 m1 s1 m2 s2 m3 s3 m4 m6 s6 m7 s7.
               assemble tools paths outfile fs (file_out (path_tmp paths) @ ''.mod'') = Some m0
             \<and> ImodCmd tools m0 ''imodmesh -e'' (assemble tools paths outfile fs) = (m1, s1)
             \<and> ImodCmd tools m1
                  (''imodmesh -CTs -P '' @ str_of_optval (slicesToSkipOrganelle opt)) s1 = (m2, s2)
             \<and> ImodCmd tools m2 ''imodsortsurf -s'' s2 = (m3, s3)
             \<and> filter_step opt m3 = Inr m4
             \<and> ImodCmd tools
                  (if mergeAll opt
                   then moveObjects tools m4 1 (''2-'' @ str_int (int (nObjects m4)))
                   else m4) ''imodmesh -e'' s3 = (m6, s6)
             \<and> ImodCmd tools m6
                  (''imodmesh -CTs -P '' @ str_of_optval (slicesToSkipOrganelle opt)) s6 = (m7, s7)
             \<and> fs' = s7(file_out (path_tmp paths) @ ''_postprocessed.mod'' \<mapsto>
                    (case name opt of
                       None \<Rightarrow> (case color opt of
                                  None \<Rightarrow> m7
                                | Some c \<Rightarrow> if c \<noteq> [] then setAll_color tools m7 c else m7)
                     | Some n \<Rightarrow>
                         if n \<noteq> []
                         then setAll_name tools
                                (case color opt of
                                   None \<Rightarrow> m7
                                 | Some c \<Rightarrow> if c \<noteq> [] then setAll_color tools m7 c else m7) n
                         else (case color opt of
                                 None \<Rightarrow> m7
                               | Some c \<Rightarrow> if c \<noteq> [] then setAll_color tools m7 c else m7)))))
       \<and> (\<not> runPostprocessing opt \<longrightarrow> fs' = assemble tools paths outfile fs)
       \<and> (\<forall>p. (\<forall>m cmd s. snd (ImodCmd tools m cmd s) p = s p)
              \<and> p \<noteq> file_out (path_tmp paths) @ ''_postprocessed.mod'' \<longrightarrow>
              fs' p = assemble tools paths outfile fs p)
       \<and> ((\<forall>m cmd s. snd (ImodCmd tools m cmd s) (file_out (path_tmp paths) @ ''.mod'')
                         = s (file_out (path_tmp paths) @ ''.mod'')) \<longrightarrow>
            fs' (file_out (path_tmp paths) @ ''.mod'')
              = assemble tools paths outfile fs (file_out (path_tmp paths) @ ''.mod''))"
proof -
  let ?fout = "file_out (path_tmp paths)"
  let ?fs1 = "assemble tools paths outfile fs"
  note pt = validate_path_tmp [OF assms(1)]
  have pp: "postprocess tools opt ?fout ?fs1 = Inr fs'"
    using assms(2) by (simp add: write_output_def)
  have ne: "?fout @ ''.mod'' \<noteq> ?fout @ ''_postprocessed.mod''" by simp
  have 1: "?fout = os_path_join (os_path_join (resolve_path_out os opt) ''tmp'') ''out''"
    by (simp add: pt file_out_def)
  have 2: "prefix (resolve_path_out os opt) (?fout @ ''.mod'')"
    unfolding pt by (rule file_out_under)
  have 3: "prefix (resolve_path_out os opt) (?fout @ ''_postprocessed.mod'')"
    unfolding pt by (rule file_out_under)
  note 4 = assemble_files(1) [of tools paths outfile fs]
  have 5: "\<forall>p. p \<noteq> ?fout @ ''.mod'' \<longrightarrow> ?fs1 p = fs p"
    by (simp add: assemble_files(2))
  note 6 = postprocess_steps [OF pp]
  have 7: "\<not> runPostprocessing opt \<longrightarrow> fs' = ?fs1"
  proof
    assume "\<not> runPostprocessing opt"
    then have "postprocess tools opt ?fout ?fs1 = Inr ?fs1" by (simp add: postprocess_def)
    with pp show "fs' = ?fs1" by simp
  qed
  have 8: "\<forall>p. (\<forall>m cmd s. snd (ImodCmd tools m cmd s) p = s p)
              \<and> p \<noteq> ?fout @ ''_postprocessed.mod'' \<longrightarrow> fs' p = ?fs1 p"
    using postprocess_frame [OF pp] by blast
  have 9: "(\<forall>m cmd s. snd (ImodCmd tools m cmd s) (?fout @ ''.mod'') = s (?fout @ ''.mod'')) \<longrightarrow>
            fs' (?fout @ ''.mod'') = ?fs1 (?fout @ ''.mod'')"
    using postprocess_frame [OF pp _ ne] by blast
  show ?thesis
    apply (intro conjI)
            apply (rule 1)
           apply (rule 2)
          apply (rule 3)
         apply (rule 4)
        apply (rule 5)
       apply (rule impI, erule 6)
      apply (rule 7)
     apply (rule 8)
    apply (rule 9)
    done
qed


text \<open>
  A run with postprocessing on a listing of two contours, from an empty set of model
  files: \<^verbatim>\<open>out.mod\<close> holds one object of two contours, \<^verbatim>\<open>out_postprocessed.mod\<close> two objects
  of one contour, and \<^verbatim>\<open>ImodCmd\<close> has left its own file. A run without postprocessing and
  without a listing writes no model.
\<close>

theorem output_files_witness:
  "validate \<lparr>isfile = (\<lambda>p. p \<in> set [''v.mrc'', ''c.mod'']),
             isdir = (\<lambda>p. p \<in> set [''seg'', ''/w'']), getcwd = ''/w''\<rparr>
          [''help'']
          \<lparr>path_out = None, runPostprocessing = True, slicesToSkipOrganelle = OptInt 4,
            filterByNContours = OptInt 0, mergeAll = False, color = None, name = None\<rparr>
          [''v.mrc'', ''c.mod'', ''seg'']
     = Inr \<lparr>file_mrc = ''v.mrc'', file_mod = ''c.mod'', path_seg = ''seg'', out_dir = ''/w'',
            path_tmp = ''/w/tmp''\<rparr>
   \<and> write_output example_tools
          \<lparr>path_out = None, runPostprocessing = True, slicesToSkipOrganelle = OptInt 4,
            filterByNContours = OptInt 0, mergeAll = False, color = None, name = None\<rparr>
          \<lparr>file_mrc = ''v.mrc'', file_mod = ''c.mod'', path_seg = ''seg'', out_dir = ''/w'',
            path_tmp = ''/w/tmp''\<rparr>
          ''1 1 0 0 7\<newline>1 2 0 0 8\<newline>'' Map.empty
     = Inr [''/w/tmp/out.mod'' \<mapsto>
              \<lparr>nObjects = 1,
               Objects = [\<lparr>nContours = 2,
                           Contours = [\<lparr>points = [0, 0, 0]\<rparr>, \<lparr>points = [0, 0, 0]\<rparr>]\<rparr>]\<rparr>,
            ''/tmp/ImodCmd.mod'' \<mapsto>
              \<lparr>nObjects = 2,
               Objects = [\<lparr>nContours = Suc 0, Contours = [\<lparr>points = [0, 0, 0]\<rparr>]\<rparr>,
                          \<lparr>nContours = Suc 0, Contours = [\<lparr>points = [0, 0, 0]\<rparr>]\<rparr>]\<rparr>,
            ''/w/tmp/out_postprocessed.mod'' \<mapsto>
              \<lparr>nObjects = 2,
               Objects = [\<lparr>nContours = Suc 0, Contours = [\<lparr>points = [0, 0, 0]\<rparr>]\<rparr>,
                          \<lparr>nContours = Suc 0, Contours = [\<lparr>points = [0, 0, 0]\<rparr>]\<rparr>]\<rparr>]
   \<and> prefix ''/w'' ''/w/tmp/out.mod'' \<and> prefix ''/w'' ''/w/tmp/out_postprocessed.mod''
   \<and> write_output example_tools
          \<lparr>path_out = None, runPostprocessing = False, slicesToSkipOrganelle = OptInt 4,
            filterByNContours = OptInt 0, mergeAll = False, color = None, name = None\<rparr>
          \<lparr>file_mrc = ''v.mrc'', file_mod = ''c.mod'', path_seg = ''seg'', out_dir = ''/w'',
            path_tmp = ''/w/tmp''\<rparr>
          [] Map.empty
     = Inr Map.empty"
proof -
  let ?os = "\<lparr>isfile = (\<lambda>p. p \<in> set [''v.mrc'', ''c.mod'']),
             isdir = (\<lambda>p. p \<in> set [''seg'', ''/w'']), getcwd = ''/w''\<rparr>"
  let ?opt = "\<lparr>path_out = None, runPostprocessing = True, slicesToSkipOrganelle = OptInt 4,
            filterByNContours = OptInt 0, mergeAll = False, color = None, name = None\<rparr>"
  let ?paths = "\<lparr>file_mrc = ''v.mrc'', file_mod = ''c.mod'', path_seg = ''seg'', out_dir = ''/w'',
            path_tmp = ''/w/tmp''\<rparr>"
  let ?txt = "''1 1 0 0 7\<newline>1 2 0 0 8\<newline>''"
  let ?m0 = "\<lparr>nObjects = 1,
               Objects = [\<lparr>nContours = 2,
                           Contours = [\<lparr>points = [0, 0, 0]\<rparr>, \<lparr>points = [0, 0, 0]\<rparr>]\<rparr>]\<rparr>"
  let ?m9 = "\<lparr>nObjects = 2,
               Objects = [\<lparr>nContours = Suc 0, Contours = [\<lparr>points = [0, 0, 0]\<rparr>]\<rparr>,
                          \<lparr>nContours = Suc 0, Contours = [\<lparr>points = [0, 0, 0]\<rparr>]\<rparr>]\<rparr>"
  have h1: "validate ?os [''help''] ?opt [''v.mrc'', ''c.mod'', ''seg''] = Inr ?paths"
    by (simp add: validate_def check_args_def Let_def os_path_join_def resolve_path_out_def)
  have fo: "file_out ''/w/tmp'' = ''/w/tmp/out''"
    by (simp add: file_out_def os_path_join_def)
  have fl: "file_lines ?txt = [''1 1 0 0 7\<newline>'', ''1 2 0 0 8\<newline>'']"
    by code_simp
  have a: "assemble example_tools ?paths ?txt Map.empty = [''/w/tmp/out.mod'' \<mapsto> ?m0]"
    by (simp add: assemble_def listing_file_def example_tools_def fo fl numeral_2_eq_2)
  have h2: "write_output example_tools ?opt ?paths ?txt Map.empty
      = Inr [''/w/tmp/out.mod'' \<mapsto> ?m0, ''/tmp/ImodCmd.mod'' \<mapsto> ?m9,
             ''/w/tmp/out_postprocessed.mod'' \<mapsto> ?m9]"
    unfolding write_output_def a
    by (simp add: postprocess_def remesh_def merge_step_def fo example_tools_def
        filter_step_def truthy_def set_if_given_def numeral_2_eq_2)
  have rp: "resolve_path_out ?os ?opt = ''/w''" by (simp add: resolve_path_out_def)
  have tl: "\<forall>m cmd s. snd (ImodCmd example_tools m cmd s) (file_out (path_tmp ?paths) @ ''.mod'')
      = s (file_out (path_tmp ?paths) @ ''.mod'')"
    by (simp add: example_tools_def fo)
  note t = output_files [OF h1 h2]
  from t have p: "prefix ''/w'' ''/w/tmp/out.mod'' \<and> prefix ''/w'' ''/w/tmp/out_postprocessed.mod''"
    by (simp add: rp fo)
  from t tl have
    "[''/w/tmp/out.mod'' \<mapsto> ?m0, ''/tmp/ImodCmd.mod'' \<mapsto> ?m9,
      ''/w/tmp/out_postprocessed.mod'' \<mapsto> ?m9] (file_out (path_tmp ?paths) @ ''.mod'')
       = assemble example_tools ?paths ?txt Map.empty (file_out (path_tmp ?paths) @ ''.mod'')"
    by blast
  let ?optN = "\<lparr>path_out = None, runPostprocessing = False, slicesToSkipOrganelle = OptInt 4,
            filterByNContours = OptInt 0, mergeAll = False, color = None, name = None\<rparr>"
  have h1N: "validate ?os [''help''] ?optN [''v.mrc'', ''c.mod'', ''seg''] = Inr ?paths"
    by (simp add: validate_def check_args_def Let_def os_path_join_def resolve_path_out_def)
  have aN: "assemble example_tools ?paths [] Map.empty = Map.empty"
    by (simp add: assemble_def listing_file_def example_tools_def)
  have "\<exists>s. write_output example_tools ?optN ?paths [] Map.empty = Inr s"
    by (simp add: write_output_def postprocess_def)
  then obtain s where h3: "write_output example_tools ?optN ?paths [] Map.empty = Inr s" by blast
  from output_files [OF h1N h3] have "s = assemble example_tools ?paths [] Map.empty" by simp
  with h3 aN have n: "write_output example_tools ?optN ?paths [] Map.empty = Inr Map.empty"
    by simp
  from h1 h2 p n show ?thesis by blast
qed


section \<open>Properties of the filter on the number of contours\<close>

lemma int_of_str_nonempty: "int_of_str s = Inr n \<Longrightarrow> s \<noteq> []"
  by (auto simp: int_of_str_def strip_def Let_def)

lemma int_of_optval_truthy:
  "int_of_optval v = Inr n \<Longrightarrow> n \<noteq> 0 \<Longrightarrow> truthy v"
  by (cases v) (auto simp: int_of_optval_def truthy_def dest: int_of_str_nonempty)

text \<open>
  C8. With \<^verbatim>\<open>--filterByNContours N\<close> and \<open>N > 0\<close>, the filter step succeeds; the objects of
  the result are the objects with more than \<open>N\<close> contours, unchanged and in their order:
  every object with at most \<open>N\<close> contours is removed and every object with more is kept.
\<close>

theorem filter_removes_small_objects:
  assumes "int_of_optval (filterByNContours opt) = Inr N" and "0 < N"
  shows "\<exists>m'. filter_step opt m = Inr m'
            \<and> Objects m' = filter (\<lambda>ob. N < int (nContours ob)) (Objects m)
            \<and> (\<forall>ob \<in> set (Objects m).
                  (int (nContours ob) \<le> N \<longrightarrow> ob \<notin> set (Objects m'))
                \<and> (N < int (nContours ob) \<longrightarrow> ob \<in> set (Objects m')))"
proof -
  have "truthy (filterByNContours opt)"
    using assms by (intro int_of_optval_truthy [of _ N]) auto
  then have "filter_step opt m = Inr (filterByNContours_greater m N)"
    using assms(1) by (simp add: filter_step_def)
  moreover have "Objects (filterByNContours_greater m N)
      = filter (\<lambda>ob. N < int (nContours ob)) (Objects m)"
    by (simp add: filterByNContours_greater_def Let_def)
  ultimately show ?thesis by auto
qed

text \<open>Objects with 2, 3, 0 and 5 contours, filtered with \<^verbatim>\<open>--filterByNContours 2\<close>.\<close>

theorem filter_removes_small_objects_witness:
  "(\<exists>m'. filter_step
            \<lparr>path_out = None, runPostprocessing = True, slicesToSkipOrganelle = OptInt 4,
              filterByNContours = OptStr ''2'', mergeAll = False, color = None, name = None\<rparr>
            \<lparr>nObjects = 4,
              Objects = [\<lparr>nContours = 2, Contours = []\<rparr>, \<lparr>nContours = 3, Contours = []\<rparr>,
                         \<lparr>nContours = 0, Contours = []\<rparr>, \<lparr>nContours = 5, Contours = []\<rparr>]\<rparr>
          = Inr m'
        \<and> Objects m' = [\<lparr>nContours = 3, Contours = []\<rparr>, \<lparr>nContours = 5, Contours = []\<rparr>])"
proof -
  let ?opt = "\<lparr>path_out = None, runPostprocessing = True, slicesToSkipOrganelle = OptInt 4,
            filterByNContours = OptStr ''2'', mergeAll = False, color = None, name = None\<rparr>"
  have p: "int_of_str ''2'' = Inr 2" by code_simp
  have h1: "int_of_optval (filterByNContours ?opt) = Inr 2"
    by (simp add: int_of_optval_def p)
  have h2: "(0::int) < 2" by simp
  let ?m = "\<lparr>nObjects = 4,
              Objects = [\<lparr>nContours = 2, Contours = []\<rparr>, \<lparr>nContours = 3, Contours = []\<rparr>,
                         \<lparr>nContours = 0, Contours = []\<rparr>, \<lparr>nContours = 5, Contours = []\<rparr>]\<rparr>"
  from filter_removes_small_objects [OF h1 h2, of ?m]
  obtain m' where "filter_step ?opt ?m = Inr m'"
    and "Objects m' = filter (\<lambda>ob. 2 < int (nContours ob)) (Objects ?m)"
    by blast
  then have "filter_step ?opt ?m = Inr m'
      \<and> Objects m' = [\<lparr>nContours = 3, Contours = []\<rparr>, \<lparr>nContours = 5, Contours = []\<rparr>]"
    by simp
  then show ?thesis by blast
qed

section \<open>Properties of the strings\<close>

lemma split_from_no_space:
  "\<forall>c \<in> set t. \<not> is_space c \<Longrightarrow> split_from w (t @ s) = split_from (w @ t) s"
  by (induction t arbitrary: w) simp_all

lemma split_from_field_space:
  assumes "field t" "is_space c"
  shows "split_from [] (t @ c # s) = t # split_from [] s"
proof -
  have "split_from [] (t @ c # s) = split_from t (c # s)"
    using assms(1) split_from_no_space [of t "[]" "c # s"] by (simp add: field_def)
  then show ?thesis using assms by (simp add: field_def)
qed

lemma split_from_fields:
  "\<forall>c \<in> set w. \<not> is_space c \<Longrightarrow> \<forall>t \<in> set (split_from w s). field t"
proof (induction s arbitrary: w)
  case Nil
  then show ?case by (simp add: field_def)
next
  case (Cons a s)
  have e: "\<forall>t \<in> set (split_from [] s). field t" by (rule Cons.IH) simp
  show ?case
  proof (cases "is_space a")
    case True
    then show ?thesis using e Cons.prems by (simp add: field_def)
  next
    case False
    then have "\<forall>c \<in> set (w @ [a]). \<not> is_space c" using Cons.prems by simp
    then have "\<forall>t \<in> set (split_from (w @ [a]) s). field t" by (rule Cons.IH)
    then show ?thesis using False by simp
  qed
qed

lemma py_split_fields: "t \<in> set (py_split s) \<Longrightarrow> field t"
  using split_from_fields [of "[]" s] by (simp add: py_split_def)

lemma py_index_field: "py_index (py_split s) i = Inr t \<Longrightarrow> field t"
proof -
  assume a: "py_index (py_split s) i = Inr t"
  then have "t \<in> set (py_split s)"
    by (auto simp: py_index_def split: if_splits)
  then show ?thesis by (rule py_split_fields)
qed

lemma digit_cases:
  assumes "d < 10"
  shows "d = 0 \<or> d = 1 \<or> d = 2 \<or> d = 3 \<or> d = 4 \<or> d = 5 \<or> d = 6 \<or> d = 7 \<or> d = 8 \<or> d = (9::nat)"
  using assms by arith

lemma digit_char_is_digit: "d < 10 \<Longrightarrow> is_digit (''0123456789'' ! d)"
  using digit_cases [of d] by (auto simp: is_digit_def)

lemma digit_char_value: "d < 10 \<Longrightarrow> digit_value (''0123456789'' ! d) = d"
  using digit_cases [of d] by (auto simp: digit_value_def)

lemma str_nat_digits: "str_nat n \<noteq> [] \<and> list_all is_digit (str_nat n)"
proof (induction n rule: str_nat.induct)
  case (1 n)
  show ?case
  proof (cases "n < 10")
    case True
    then show ?thesis by (subst (1 2) str_nat.simps) (simp add: digit_char_is_digit)
  next
    case False
    then have "list_all is_digit (str_nat (n div 10))" using 1 by simp
    moreover have "is_digit (''0123456789'' ! (n mod 10))"
      by (rule digit_char_is_digit) simp
    ultimately show ?thesis using False by (subst (1 2) str_nat.simps) simp
  qed
qed

lemma digits_value_snoc: "digits_value (ds @ [c]) = 10 * digits_value ds + digit_value c"
  by (simp add: digits_value_def)

lemma digits_value_str_nat: "digits_value (str_nat n) = n"
proof (induction n rule: str_nat.induct)
  case (1 n)
  show ?case
  proof (cases "n < 10")
    case True
    then have "str_nat n = [''0123456789'' ! n]" by (subst str_nat.simps) simp
    then show ?thesis using True by (simp add: digits_value_def digit_char_value)
  next
    case False
    then have s: "str_nat n = str_nat (n div 10) @ [''0123456789'' ! (n mod 10)]"
      by (subst str_nat.simps) simp
    have "digits_value (str_nat (n div 10)) = n div 10" using 1 False by simp
    then show ?thesis
      by (simp add: s digits_value_snoc digit_char_value)
  qed
qed

lemma is_digit_not_space: "is_digit c \<Longrightarrow> \<not> is_space c"
  by (auto simp: is_digit_def is_space_def)

lemma is_digit_not_sign: "is_digit c \<Longrightarrow> c \<noteq> CHR ''-'' \<and> c \<noteq> CHR ''+''"
  by (auto simp: is_digit_def)

lemma strip_no_space: "\<forall>c \<in> set s. \<not> is_space c \<Longrightarrow> strip s = s"
proof -
  assume a: "\<forall>c \<in> set s. \<not> is_space c"
  then have "dropWhile is_space s = s" by (cases s) auto
  moreover have "dropWhile is_space (rev s) = rev s" using a by (cases "rev s") auto
  ultimately show ?thesis by (simp add: strip_def)
qed

lemma int_of_str_digits:
  assumes "ds \<noteq> []" "list_all is_digit ds"
  shows "int_of_str ds = Inr (int (digits_value ds))"
    and "int_of_str (CHR ''-'' # ds) = Inr (- int (digits_value ds))"
proof -
  have ns: "\<forall>c \<in> set ds. \<not> is_space c"
    using assms(2) by (auto simp: list_all_iff is_digit_not_space)
  obtain d r where dr: "ds = d # r" using assms(1) by (cases ds) auto
  then have d: "is_digit d" using assms(2) by simp
  have "strip ds = ds" using ns by (rule strip_no_space)
  then show "int_of_str ds = Inr (int (digits_value ds))"
    using assms dr is_digit_not_sign [OF d] by (simp add: int_of_str_def Let_def)
  have "\<not> is_space (CHR ''-'')" by (simp add: is_space_def)
  then have "strip (CHR ''-'' # ds) = CHR ''-'' # ds"
    using ns by (intro strip_no_space) auto
  then show "int_of_str (CHR ''-'' # ds) = Inr (- int (digits_value ds))"
    using assms by (simp add: int_of_str_def Let_def)
qed

lemma int_of_str_str_int: "int_of_str (str_int k) = Inr k"
proof (cases "k < 0")
  case True
  then show ?thesis
    using int_of_str_digits(2) [of "str_nat (nat (- k))"] str_nat_digits [of "nat (- k)"]
    by (simp add: str_int_def digits_value_str_nat)
next
  case False
  then show ?thesis
    using int_of_str_digits(1) [of "str_nat (nat k)"] str_nat_digits [of "nat k"]
    by (simp add: str_int_def digits_value_str_nat)
qed

lemma str_nat_no_space: "c \<in> set (str_nat n) \<Longrightarrow> \<not> is_space c"
  using str_nat_digits [of n] by (simp add: list_all_iff is_digit_not_space)

lemma str_int_field: "field (str_int k)"
proof (cases "k < 0")
  case True
  have "\<not> is_space (CHR ''-'')" by (simp add: is_space_def)
  then show ?thesis using True str_nat_no_space by (auto simp: field_def str_int_def)
next
  case False
  then show ?thesis
    using str_nat_digits [of "nat k"] str_nat_no_space by (auto simp: field_def str_int_def)
qed

section \<open>Properties of the accumulation block\<close>

lemma lines_from_line:
  "CHR 0x0A \<notin> set b \<Longrightarrow> lines_from l (b @ CHR 0x0A # s) = (l @ b @ [CHR 0x0A]) # lines_from [] s"
  by (induction b arbitrary: l) auto

lemma lines_from_complete:
  "\<forall>l \<in> set new. complete_line l \<Longrightarrow> lines_from [] (concat new @ s) = new @ lines_from [] s"
proof (induction new)
  case Nil
  show ?case by simp
next
  case (Cons l new)
  then obtain b where b: "l = b @ [CHR 0x0A]" "CHR 0x0A \<notin> set b"
    by (auto simp: complete_line_def)
  have "lines_from [] (b @ CHR 0x0A # (concat new @ s)) = (b @ [CHR 0x0A]) # lines_from [] (concat new @ s)"
    using lines_from_line [OF b(2), of "[]"] by simp
  then show ?case using b(1) Cons by simp
qed

lemma file_lines_concat_complete:
  "\<forall>l \<in> set new. complete_line l \<Longrightarrow> file_lines (concat new) = new"
  using lines_from_complete [of new "[]"] by (simp add: file_lines_def)

lemma field_no_newline: "field t \<Longrightarrow> CHR 0x0A \<notin> set t"
  by (auto simp: field_def is_space_def)

lemma space_is_space: "is_space (CHR '' '')" "is_space (CHR 0x0A)"
  by (simp_all add: is_space_def)

lemma field_one: "field ''1''"
  by (simp add: field_def is_space_def)

lemma py_split_format_newline:
  assumes "field x" "field y" "field z"
  shows "py_split (format_newline (k, x, y, z)) = [''1'', str_int k, x, y, z]"
proof -
  have e: "format_newline (k, x, y, z)
      = ''1'' @ CHR '' '' # (str_int k @ CHR '' '' # (x @ CHR '' '' # (y @ CHR '' '' # (z @ CHR 0x0A # []))))"
    by (simp add: format_newline_def)
  have "split_from [] (''1'' @ CHR '' '' # (str_int k @ CHR '' '' # (x @ CHR '' '' # (y @ CHR '' '' # (z @ CHR 0x0A # [])))))
      = ''1'' # split_from [] (str_int k @ CHR '' '' # (x @ CHR '' '' # (y @ CHR '' '' # (z @ CHR 0x0A # []))))"
    by (rule split_from_field_space [OF field_one space_is_space(1)])
  also have "split_from [] (str_int k @ CHR '' '' # (x @ CHR '' '' # (y @ CHR '' '' # (z @ CHR 0x0A # []))))
      = str_int k # split_from [] (x @ CHR '' '' # (y @ CHR '' '' # (z @ CHR 0x0A # [])))"
    by (rule split_from_field_space [OF str_int_field space_is_space(1)])
  also have "split_from [] (x @ CHR '' '' # (y @ CHR '' '' # (z @ CHR 0x0A # [])))
      = x # split_from [] (y @ CHR '' '' # (z @ CHR 0x0A # []))"
    by (rule split_from_field_space [OF assms(1) space_is_space(1)])
  also have "split_from [] (y @ CHR '' '' # (z @ CHR 0x0A # [])) = y # split_from [] (z @ CHR 0x0A # [])"
    by (rule split_from_field_space [OF assms(2) space_is_space(1)])
  also have "split_from [] (z @ CHR 0x0A # []) = z # split_from [] []"
    by (rule split_from_field_space [OF assms(3) space_is_space(2)])
  finally show ?thesis by (simp add: py_split_def e)
qed

lemma complete_format_newline:
  assumes "field x" "field y" "field z"
  shows "complete_line (format_newline (k, x, y, z))"
proof -
  let ?b = "''1 '' @ str_int k @ '' '' @ x @ '' '' @ y @ '' '' @ z"
  have "CHR 0x0A \<notin> set ?b"
    using assms str_int_field [of k] by (auto dest: field_no_newline)
  moreover have "format_newline (k, x, y, z) = ?b @ [CHR 0x0A]"
    by (simp add: format_newline_def)
  ultimately show ?thesis unfolding complete_line_def by blast
qed

lemma newline_of_Inr:
  assumes "newline_of C line = Inr l"
  shows "\<exists>k x y z. contour_index line = Inr k \<and> field x \<and> field y \<and> field z
            \<and> l = format_newline (k + C, x, y, z)"
proof -
  from assms obtain k x y z where f: "renumbered_fields C line = Inr (k, x, y, z)"
      and l: "l = format_newline (k, x, y, z)"
    by (auto simp: newline_of_def split: sum.splits prod.splits)
  from f obtain k0 where k0: "contour_index line = Inr k0" "k = k0 + C"
      and x: "py_index (py_split line) 2 = Inr x"
      and y: "py_index (py_split line) 3 = Inr y"
      and z: "py_index (py_split line) 4 = Inr z"
    by (auto simp: renumbered_fields_def Let_def split: sum.splits)
  show ?thesis
    using k0 l py_index_field [OF x] py_index_field [OF y] py_index_field [OF z] by blast
qed

text \<open>What a written line is: complete, with object index 1 and the contour index moved by C.\<close>

lemma newline_of_written:
  assumes "newline_of C line = Inr l"
  shows "complete_line l"
    and "py_index (py_split l) 0 = Inr ''1''"
    and "\<exists>k. contour_index line = Inr k \<and> contour_index l = Inr (k + C)"
proof -
  from newline_of_Inr [OF assms] obtain k x y z where
    k: "contour_index line = Inr k" and f: "field x" "field y" "field z"
    and l: "l = format_newline (k + C, x, y, z)" by blast
  note sp = py_split_format_newline [OF f, of "k + C"]
  show "complete_line l" unfolding l by (rule complete_format_newline [OF f])
  show "py_index (py_split l) 0 = Inr ''1''"
    unfolding l sp by (simp add: py_index_def)
  have "contour_index l = Inr (k + C)"
    unfolding l contour_index_def sp by (simp add: py_index_def int_of_str_str_int)
  with k show "\<exists>k. contour_index line = Inr k \<and> contour_index l = Inr (k + C)" by blast
qed

lemma write_lines_Inr:
  "write_lines C ls out = Inr out' \<Longrightarrow>
     \<exists>new. out' = out @ concat new \<and> list_all2 (\<lambda>line l. newline_of C line = Inr l) ls new"
proof (induction ls arbitrary: out)
  case Nil
  then show ?case by simp
next
  case (Cons line ls)
  from Cons.prems obtain l where l: "newline_of C line = Inr l"
    and r: "write_lines C ls (out @ l) = Inr out'"
    by (auto split: sum.splits)
  from Cons.IH [OF r] obtain new where
    "out' = (out @ l) @ concat new" "list_all2 (\<lambda>line l. newline_of C line = Inr l) ls new"
    by blast
  then have "out' = out @ concat (l # new)
      \<and> list_all2 (\<lambda>line l. newline_of C line = Inr l) (line # ls) (l # new)"
    using l by simp
  then show ?case by blast
qed

lemma accumulate_Inr:
  assumes "accumulate txt (out, C) = Inr (out', C')"
  shows "(txt = [] \<and> out' = out \<and> C' = C)
       \<or> (txt \<noteq> [] \<and> (\<exists>n new. ncont_of txt = Inr n \<and> C' = C + n \<and> out' = out @ concat new
              \<and> list_all2 (\<lambda>line l. newline_of C line = Inr l) (file_lines txt) new))"
proof (cases "txt = []")
  case True
  then show ?thesis using assms by (simp add: accumulate_def)
next
  case False
  with assms obtain n where n: "ncont_of txt = Inr n"
    and w: "write_lines C (file_lines txt) out = Inr out'" and c: "C' = C + n"
    by (auto simp: accumulate_def split: sum.splits)
  from write_lines_Inr [OF w] n c False show ?thesis by blast
qed

lemma written_lines:
  assumes "list_all2 (\<lambda>line l. newline_of C line = Inr l) ls new"
  shows "file_lines (concat new) = new"
    and "\<forall>l \<in> set new. complete_line l \<and> py_index (py_split l) 0 = Inr ''1''"
    and "list_all2 (\<lambda>line l. \<exists>k. contour_index line = Inr k \<and> contour_index l = Inr (k + C))
           ls new"
proof -
  have each: "\<forall>l \<in> set new. \<exists>line. newline_of C line = Inr l"
  proof
    fix l assume "l \<in> set new"
    then obtain i where "i < length new" "new ! i = l" by (auto simp: in_set_conv_nth)
    with list_all2_nthD2 [OF assms, of i] show "\<exists>line. newline_of C line = Inr l" by auto
  qed
  then show 2: "\<forall>l \<in> set new. complete_line l \<and> py_index (py_split l) 0 = Inr ''1''"
    by (auto dest: newline_of_written(1,2))
  then show "file_lines (concat new) = new"
    by (intro file_lines_concat_complete) simp
  show "list_all2 (\<lambda>line l. \<exists>k. contour_index line = Inr k \<and> contour_index l = Inr (k + C))
           ls new"
    using assms by (rule list_all2_mono) (rule newline_of_written(3))
qed

lemma accumulate_loop_counter:
  "accumulate_loop txts (out, C) = Inr (out', C') \<Longrightarrow>
     C' = C + sum_list (map (\<lambda>txt. if txt = [] then 0
                                  else case ncont_of txt of Inl e \<Rightarrow> 0 | Inr n \<Rightarrow> n) txts)"
proof (induction txts arbitrary: out C)
  case Nil
  then show ?case by simp
next
  case (Cons tx txts)
  from Cons.prems obtain out1 C1 where a: "accumulate tx (out, C) = Inr (out1, C1)"
    and r: "accumulate_loop txts (out1, C1) = Inr (out', C')"
    by (auto split: sum.splits)
  from accumulate_Inr [OF a]
  have "C1 = C + (if tx = [] then 0 else case ncont_of tx of Inl e \<Rightarrow> 0 | Inr n \<Rightarrow> n)"
    by auto
  with Cons.IH [OF r] show ?case by simp
qed

lemma accumulate_loop_lines:
  "accumulate_loop txts (out, C) = Inr (out', C') \<Longrightarrow>
     \<exists>new. out' = out @ concat new
        \<and> (\<forall>l \<in> set new. complete_line l \<and> py_index (py_split l) 0 = Inr ''1'')
        \<and> length new = sum_list (map (\<lambda>txt. length (file_lines txt)) txts)"
proof (induction txts arbitrary: out C)
  case Nil
  then have "out' = out @ concat []" by simp
  then show ?case by (intro exI [of _ "[]"]) simp
next
  case (Cons tx txts)
  from Cons.prems obtain out1 C1 where a: "accumulate tx (out, C) = Inr (out1, C1)"
    and r: "accumulate_loop txts (out1, C1) = Inr (out', C')"
    by (auto split: sum.splits)
  from Cons.IH [OF r] obtain new2 where n2: "out' = out1 @ concat new2"
    "\<forall>l \<in> set new2. complete_line l \<and> py_index (py_split l) 0 = Inr ''1''"
    "length new2 = sum_list (map (\<lambda>txt. length (file_lines txt)) txts)" by blast
  have "\<exists>new1. out1 = out @ concat new1
      \<and> (\<forall>l \<in> set new1. complete_line l \<and> py_index (py_split l) 0 = Inr ''1'')
      \<and> length new1 = length (file_lines tx)"
  proof (cases "tx = []")
    case True
    then have "out1 = out @ concat []" using accumulate_Inr [OF a] by simp
    then show ?thesis using True by (intro exI [of _ "[]"]) (simp add: file_lines_def)
  next
    case False
    with accumulate_Inr [OF a] obtain new1 where o: "out1 = out @ concat new1"
      and l: "list_all2 (\<lambda>line l. newline_of C line = Inr l) (file_lines tx) new1" by blast
    from written_lines(2) [OF l] o list_all2_lengthD [OF l] show ?thesis by auto
  qed
  then obtain new1 where n1: "out1 = out @ concat new1"
    "\<forall>l \<in> set new1. complete_line l \<and> py_index (py_split l) 0 = Inr ''1''"
    "length new1 = length (file_lines tx)" by blast
  have "out' = out @ concat (new1 @ new2)
      \<and> (\<forall>l \<in> set (new1 @ new2). complete_line l \<and> py_index (py_split l) 0 = Inr ''1'')
      \<and> length (new1 @ new2) = sum_list (map (\<lambda>txt. length (file_lines txt)) (tx # txts))"
    using n1 n2 by auto
  then show ?case by blast
qed


lemma lines_from_nonempty: "l \<noteq> [] \<or> s \<noteq> [] \<Longrightarrow> lines_from l s \<noteq> []"
  by (induction s arbitrary: l) auto

lemma file_lines_nonempty: "s \<noteq> [] \<Longrightarrow> file_lines s \<noteq> []"
  by (simp add: file_lines_def lines_from_nonempty)

lemma py_index_in_range: "i < length xs \<Longrightarrow> py_index xs (int i) = Inr (xs ! i)"
  by (simp add: py_index_def)

lemma newline_of_succeeds:
  assumes "contour_index line = Inr k" "5 \<le> length (py_split line)"
  shows "\<exists>l. newline_of C line = Inr l"
proof -
  have "py_index (py_split line) 2 = Inr (py_split line ! 2)"
    "py_index (py_split line) 3 = Inr (py_split line ! 3)"
    "py_index (py_split line) 4 = Inr (py_split line ! 4)"
    using assms(2) py_index_in_range [of 2 "py_split line"]
      py_index_in_range [of 3 "py_split line"] py_index_in_range [of 4 "py_split line"]
    by simp_all
  then show ?thesis using assms(1) by (simp add: newline_of_def renumbered_fields_def Let_def)
qed

lemma write_lines_succeeds:
  "\<forall>line \<in> set ls. (\<exists>k. contour_index line = Inr k) \<and> 5 \<le> length (py_split line) \<Longrightarrow>
     \<exists>out'. write_lines C ls out = Inr out'"
proof (induction ls arbitrary: out)
  case Nil
  show ?case by simp
next
  case (Cons line ls)
  then obtain l where "newline_of C line = Inr l"
    using newline_of_succeeds [of line _ C] by auto
  moreover have "\<exists>out'. write_lines C ls (out @ l) = Inr out'"
    by (rule Cons.IH) (use Cons.prems in simp)
  ultimately show ?case by simp
qed

lemma accumulate_succeeds:
  assumes "\<forall>line \<in> set (file_lines s). (\<exists>k. contour_index line = Inr k) \<and> 5 \<le> length (py_split line)"
  shows "\<exists>st. accumulate s (out, C) = Inr st"
proof (cases "s = []")
  case True
  then show ?thesis by (simp add: accumulate_def)
next
  case False
  then have ne: "file_lines s \<noteq> []" by (rule file_lines_nonempty)
  then have "py_index (file_lines s) (- 1) = Inr (last (file_lines s))"
    using py_index_minus_one [of "file_lines s"] by simp
  moreover have "last (file_lines s) \<in> set (file_lines s)" using ne by simp
  then obtain n where "contour_index (last (file_lines s)) = Inr n" using assms by blast
  ultimately have n: "ncont_of s = Inr n" by (simp add: ncont_of_def)
  from write_lines_succeeds [OF assms, of C out] obtain out'
    where "write_lines C (file_lines s) out = Inr out'" by blast
  with n False show ?thesis by (simp add: accumulate_def)
qed

lemma accumulate_loop_succeeds:
  "\<forall>s \<in> set ss. \<forall>line \<in> set (file_lines s).
      (\<exists>k. contour_index line = Inr k) \<and> 5 \<le> length (py_split line) \<Longrightarrow>
     \<exists>st. accumulate_loop ss (out, C) = Inr st"
proof (induction ss arbitrary: out C)
  case Nil
  show ?case by simp
next
  case (Cons s ss)
  then obtain out1 C1 where a: "accumulate s (out, C) = Inr (out1, C1)"
    using accumulate_succeeds [of s out C] by auto
  have "\<exists>st. accumulate_loop ss (out1, C1) = Inr st"
    by (rule Cons.IH) (use Cons.prems in simp)
  with a show ?case by simp
qed


lemma process_slice_accumulates:
  assumes "process_slice misc tools r c filesOrg ptmp zi (fs, out, C) = Inr (fs', out', C')"
  shows "\<exists>m. accumulate (point_listing tools zi m) (out, C) = Inr (out', C')"
  using assms
  by (auto simp: process_slice_def split: sum.splits prod.splits)

lemma slice_loop_accumulates:
  "slice_loop misc tools r c filesOrg ptmp zlist (fs, out, C) = Inr (fs', out', C') \<Longrightarrow>
     \<exists>txts. list_all2 (\<lambda>zi t. \<exists>m. t = point_listing tools zi m) zlist txts
          \<and> accumulate_loop txts (out, C) = Inr (out', C')"
proof (induction zlist arbitrary: fs out C)
  case Nil
  then show ?case by simp
next
  case (Cons zi zlist)
  from Cons.prems obtain fs1 out1 C1 where
    p: "process_slice misc tools r c filesOrg ptmp zi (fs, out, C) = Inr (fs1, out1, C1)"
    and l: "slice_loop misc tools r c filesOrg ptmp zlist (fs1, out1, C1) = Inr (fs', out', C')"
    by (auto split: sum.splits)
  from process_slice_accumulates [OF p] obtain m where
    a: "accumulate (point_listing tools zi m) (out, C) = Inr (out1, C1)" by blast
  from Cons.IH [OF l] obtain txts where
    t: "list_all2 (\<lambda>zi t. \<exists>m. t = point_listing tools zi m) zlist txts"
       "accumulate_loop txts (out1, C1) = Inr (out', C')" by blast
  have "list_all2 (\<lambda>zi t. \<exists>m. t = point_listing tools zi m) (zi # zlist)
          (point_listing tools zi m # txts)
      \<and> accumulate_loop (point_listing tools zi m # txts) (out, C) = Inr (out', C')"
    using a t by auto
  then show ?case by blast
qed

lemma sum_snd_Inr: "map_sum id snd r = Inr x \<Longrightarrow> \<exists>a. r = Inr (a, x)"
  by (cases r) auto

lemma example_slice_loop:
  "map_sum id snd
     (slice_loop example_misc example_slice_tools 2 2 [''s/a'', ''s/b'', ''s/c''] ''t'' [1, 2, 3]
        ([''s/a'' \<mapsto> \<lparr>shape0 = 2, shape1 = 2, elems = [7, 7, 0, 0]\<rparr>,
          ''s/b'' \<mapsto> \<lparr>shape0 = 2, shape1 = 2, elems = [0, 0, 7, 7]\<rparr>,
          ''s/c'' \<mapsto> \<lparr>shape0 = 2, shape1 = 2, elems = [0, 7, 7, 7]\<rparr>], [], 0))
   = Inr (''1 1 0 0 0\<newline>1 2 0 0 0\<newline>1 3 0 0 2\<newline>'', 3)"
  by code_simp

text \<open>
  C2. (1) When the loop over the slices, started with \<open>C = 0\<close>, has processed \<^verbatim>\<open>zlist\<close>,
  the counter is the sum of the contour counts of the point listings of the slices, where
  the count of a non-empty listing is the contour index on its last line and an empty
  listing counts 0. (2) The body of the loop passes the listing of its slice, the
  accumulator and the counter to the accumulation block. (3) For a non-empty listing,
  processed with the counter at \<open>Cb\<close>: the counter moves to \<open>Cb + n\<close> with \<open>n\<close> the count of
  the listing; the lines appended correspond one to one to the lines of the listing, each
  with its contour index moved by \<open>Cb\<close>; so if the indices of the listing lie in 1..n, the
  indices appended lie in Cb+1..Cb+n. (4) An empty listing appends nothing and leaves the
  counter as it is.
\<close>

theorem running_counter:
  "(slice_loop misc tools r c filesOrg ptmp zlist (fs, outfile0, 0) = Inr (fs', outfile, C) \<longrightarrow>
      (\<exists>txts. list_all2 (\<lambda>zi t. \<exists>m. t = point_listing tools zi m) zlist txts
         \<and> C = sum_list (map (\<lambda>txt. if txt = [] then 0
                                 else case ncont_of txt of Inl e \<Rightarrow> 0 | Inr n \<Rightarrow> n) txts)))
   \<and> (process_slice misc tools r c filesOrg ptmp zi (fs, out, Cb) = Inr (fs', out', Ca) \<longrightarrow>
        (\<exists>m. accumulate (point_listing tools zi m) (out, Cb) = Inr (out', Ca)))
   \<and> (accumulate txt (out, Cb) = Inr (out', Ca) \<and> txt \<noteq> [] \<longrightarrow>
        (\<exists>n appended. ncont_of txt = Inr n \<and> Ca = Cb + n \<and> out' = out @ appended
           \<and> list_all2 (\<lambda>line l. \<exists>k. contour_index line = Inr k \<and> contour_index l = Inr (k + Cb))
                (file_lines txt) (file_lines appended)
           \<and> ((\<forall>line \<in> set (file_lines txt). \<forall>k. contour_index line = Inr k \<longrightarrow> 1 \<le> k \<and> k \<le> n)
                \<longrightarrow> (\<forall>l \<in> set (file_lines appended).
                       \<exists>j. contour_index l = Inr j \<and> Cb + 1 \<le> j \<and> j \<le> Cb + n))))
   \<and> accumulate [] (out, Cb) = Inr (out, Cb)"
proof (intro conjI impI)
  assume "slice_loop misc tools r c filesOrg ptmp zlist (fs, outfile0, 0) = Inr (fs', outfile, C)"
  from slice_loop_accumulates [OF this] obtain txts where
    t: "list_all2 (\<lambda>zi t. \<exists>m. t = point_listing tools zi m) zlist txts"
    and a: "accumulate_loop txts (outfile0, 0) = Inr (outfile, C)" by blast
  from accumulate_loop_counter [OF a] t
  show "\<exists>txts. list_all2 (\<lambda>zi t. \<exists>m. t = point_listing tools zi m) zlist txts
         \<and> C = sum_list (map (\<lambda>txt. if txt = [] then 0
                                 else case ncont_of txt of Inl e \<Rightarrow> 0 | Inr n \<Rightarrow> n) txts)"
    by auto
next
  assume "process_slice misc tools r c filesOrg ptmp zi (fs, out, Cb) = Inr (fs', out', Ca)"
  then show "\<exists>m. accumulate (point_listing tools zi m) (out, Cb) = Inr (out', Ca)"
    by (rule process_slice_accumulates)
next
  show "accumulate [] (out, Cb) = Inr (out, Cb)" by (simp add: accumulate_def)
next
  assume a: "accumulate txt (out, Cb) = Inr (out', Ca) \<and> txt \<noteq> []"
  with accumulate_Inr [of "txt" out Cb out' Ca] obtain n new where n: "ncont_of txt = Inr n"
    "Ca = Cb + n" "out' = out @ concat new"
    and l: "list_all2 (\<lambda>line l. newline_of Cb line = Inr l) (file_lines txt) new" by blast
  note w = written_lines [OF l]
  let ?R = "\<lambda>line l. \<exists>k. contour_index line = Inr k \<and> contour_index l = Inr (k + Cb)"
  have rng: "\<forall>l \<in> set new. \<exists>j. contour_index l = Inr j \<and> Cb + 1 \<le> j \<and> j \<le> Cb + n"
    if h: "\<forall>line \<in> set (file_lines txt). \<forall>k. contour_index line = Inr k \<longrightarrow> 1 \<le> k \<and> k \<le> n"
  proof
    fix l assume "l \<in> set new"
    then obtain i where i: "i < length new" "new ! i = l" by (auto simp: in_set_conv_nth)
    then have il: "i < length (file_lines txt)" using list_all2_lengthD [OF w(3)] by simp
    from list_all2_nthD2 [OF w(3) i(1)] i(2) obtain k where
      k: "contour_index (file_lines txt ! i) = Inr k" "contour_index l = Inr (k + Cb)" by auto
    have "file_lines txt ! i \<in> set (file_lines txt)" using il by simp
    with h k(1) have "1 \<le> k \<and> k \<le> n" by blast
    with k(2) show "\<exists>j. contour_index l = Inr j \<and> Cb + 1 \<le> j \<and> j \<le> Cb + n" by auto
  qed
  have "ncont_of txt = Inr n \<and> Ca = Cb + n \<and> out' = out @ concat new
           \<and> list_all2 ?R (file_lines txt) (file_lines (concat new))
           \<and> ((\<forall>line \<in> set (file_lines txt). \<forall>k. contour_index line = Inr k \<longrightarrow> 1 \<le> k \<and> k \<le> n)
                \<longrightarrow> (\<forall>l \<in> set (file_lines (concat new)).
                       \<exists>j. contour_index l = Inr j \<and> Cb + 1 \<le> j \<and> j \<le> Cb + n))"
    using n w(3) rng by (simp add: w(1))
  then show "\<exists>n appended. ncont_of txt = Inr n \<and> Ca = Cb + n \<and> out' = out @ appended
           \<and> list_all2 ?R (file_lines txt) (file_lines appended)
           \<and> ((\<forall>line \<in> set (file_lines txt). \<forall>k. contour_index line = Inr k \<longrightarrow> 1 \<le> k \<and> k \<le> n)
                \<longrightarrow> (\<forall>l \<in> set (file_lines appended).
                       \<exists>j. contour_index l = Inr j \<and> Cb + 1 \<le> j \<and> j \<le> Cb + n))"
    by blast
qed

text \<open>
  Three slices with 2, 0 and 1 contours: the counter ends at 3. A listing of one line,
  accumulated with the counter at 2, is appended with the index 3 = 2 + 1.
\<close>

theorem running_counter_witness:
  "map_sum id snd
     (slice_loop example_misc example_slice_tools 2 2 [''s/a'', ''s/b'', ''s/c''] ''t'' [1, 2, 3]
        ([''s/a'' \<mapsto> \<lparr>shape0 = 2, shape1 = 2, elems = [7, 7, 0, 0]\<rparr>,
          ''s/b'' \<mapsto> \<lparr>shape0 = 2, shape1 = 2, elems = [0, 0, 7, 7]\<rparr>,
          ''s/c'' \<mapsto> \<lparr>shape0 = 2, shape1 = 2, elems = [0, 7, 7, 7]\<rparr>], [], 0))
     = Inr (''1 1 0 0 0\<newline>1 2 0 0 0\<newline>1 3 0 0 2\<newline>'', 3)
   \<and> (\<exists>txts. list_all2 (\<lambda>zi t. \<exists>m. t = point_listing example_slice_tools zi m) [1, 2, 3] txts
         \<and> (3::int) = sum_list (map (\<lambda>txt. if txt = [] then 0
                                 else case ncont_of txt of Inl e \<Rightarrow> 0 | Inr n \<Rightarrow> n) txts))
   \<and> accumulate ''7 1 0 0 2\<newline>'' (''1 1 0 0 0\<newline>1 2 0 0 0\<newline>'', 2)
       = Inr (''1 1 0 0 0\<newline>1 2 0 0 0\<newline>1 3 0 0 2\<newline>'', 3)
   \<and> ncont_of ''7 1 0 0 2\<newline>'' = Inr 1
   \<and> (\<exists>j. contour_index ''1 3 0 0 2\<newline>'' = Inr j \<and> 2 + 1 \<le> j \<and> j \<le> 2 + 1)
   \<and> accumulate [] (''1 1 0 0 0\<newline>1 2 0 0 0\<newline>'', 2)
       = Inr (''1 1 0 0 0\<newline>1 2 0 0 0\<newline>'', 2)"
proof -
  let ?fs = "[''s/a'' \<mapsto> \<lparr>shape0 = 2, shape1 = 2, elems = [7, 7, 0, 0 :: 8 word]\<rparr>,
          ''s/b'' \<mapsto> \<lparr>shape0 = 2, shape1 = 2, elems = [0, 0, 7, 7]\<rparr>,
          ''s/c'' \<mapsto> \<lparr>shape0 = 2, shape1 = 2, elems = [0, 7, 7, 7]\<rparr>]"
  let ?t1 = "''1 1 0 0 0\<newline>1 2 0 0 0\<newline>''"
  let ?t3 = "''7 1 0 0 2\<newline>''"
  let ?F = "''1 1 0 0 0\<newline>1 2 0 0 0\<newline>1 3 0 0 2\<newline>''"
  note e = example_slice_loop
  from sum_snd_Inr [OF e] obtain fs' where
    h1: "slice_loop example_misc example_slice_tools 2 2 [''s/a'', ''s/b'', ''s/c''] ''t'' [1, 2, 3]
           (?fs, [], 0) = Inr (fs', ?F, 3)" by blast
  have h2: "accumulate ?t3 (?t1, 2) = Inr (?F, 3)" by code_simp
  have ne: "?t3 \<noteq> []" by simp
  have fl: "file_lines ?t3 = [?t3]" by code_simp
  have fa: "file_lines ''1 3 0 0 2\<newline>'' = [''1 3 0 0 2\<newline>'']" by code_simp
  have ci: "contour_index ?t3 = Inr 1" by code_simp
  note rc = running_counter [of example_misc example_slice_tools 2 2 "[''s/a'', ''s/b'', ''s/c'']"
      "''t''" "[1, 2, 3]" ?fs "[]" fs' ?F 3 _ ?t1 2 ?F 3 ?t3]
  from rc h1 have s: "\<exists>txts. list_all2 (\<lambda>zi t. \<exists>m. t = point_listing example_slice_tools zi m)
           [1, 2, 3] txts
         \<and> (3::int) = sum_list (map (\<lambda>txt. if txt = [] then 0
                                 else case ncont_of txt of Inl e \<Rightarrow> 0 | Inr n \<Rightarrow> n) txts)"
    by blast
  from rc h2 ne obtain n appended where n: "ncont_of ?t3 = Inr n" "3 = 2 + n"
    and ap: "?F = ?t1 @ appended"
    and rng: "(\<forall>line \<in> set (file_lines ?t3). \<forall>k. contour_index line = Inr k \<longrightarrow> 1 \<le> k \<and> k \<le> n)
                \<longrightarrow> (\<forall>l \<in> set (file_lines appended).
                       \<exists>j. contour_index l = Inr j \<and> 2 + 1 \<le> j \<and> j \<le> 2 + n)"
    by blast
  from n(2) have n1: "n = 1" by simp
  from ap have a: "appended = ''1 3 0 0 2\<newline>''" by simp
  have "\<forall>line \<in> set (file_lines ?t3). \<forall>k. contour_index line = Inr k \<longrightarrow> 1 \<le> k \<and> k \<le> n"
    by (simp add: fl ci n1)
  with rng have "\<forall>l \<in> set (file_lines appended).
                       \<exists>j. contour_index l = Inr j \<and> 2 + 1 \<le> j \<and> j \<le> 2 + n" by blast
  then have j: "\<exists>j. contour_index ''1 3 0 0 2\<newline>'' = Inr j \<and> 2 + 1 \<le> j \<and> j \<le> 2 + 1"
    by (simp add: a fa n1)
  have z: "accumulate [] (?t1, 2) = Inr (?t1, 2)" using rc by blast
  from e s h2 n(1) n1 j z show ?thesis by blast
qed


text \<open>
  C9. Every line the loop over the slices appends to the accumulator has the object
  index 1, whatever the object indices of the listings; there is one appended line for
  each line of the listings.
\<close>

theorem accumulated_object_index_is_1:
  assumes "slice_loop misc tools r c filesOrg ptmp zlist (fs, outfile0, C0) = Inr (fs', outfile, C)"
  shows "\<exists>txts appended. list_all2 (\<lambda>zi t. \<exists>m. t = point_listing tools zi m) zlist txts
            \<and> outfile = outfile0 @ appended
            \<and> length (file_lines appended) = sum_list (map (\<lambda>txt. length (file_lines txt)) txts)
            \<and> (\<forall>l \<in> set (file_lines appended). py_index (py_split l) 0 = Inr ''1'')"
proof -
  from slice_loop_accumulates [OF assms] obtain txts where
    t: "list_all2 (\<lambda>zi t. \<exists>m. t = point_listing tools zi m) zlist txts"
    and a: "accumulate_loop txts (outfile0, C0) = Inr (outfile, C)" by blast
  from accumulate_loop_lines [OF a] obtain new where n: "outfile = outfile0 @ concat new"
    "\<forall>l \<in> set new. complete_line l \<and> py_index (py_split l) 0 = Inr ''1''"
    "length new = sum_list (map (\<lambda>txt. length (file_lines txt)) txts)" by blast
  have "file_lines (concat new) = new"
    using n(2) by (intro file_lines_concat_complete) simp
  with n t show ?thesis by (intro exI [of _ txts] exI [of _ "concat new"]) simp
qed

text \<open>Slices whose listings have the object index 7: the accumulator holds 1 throughout.\<close>

theorem accumulated_object_index_is_1_witness:
  "map_sum id snd
     (slice_loop example_misc example_slice_tools 2 2 [''s/a'', ''s/b'', ''s/c''] ''t'' [1, 2, 3]
        ([''s/a'' \<mapsto> \<lparr>shape0 = 2, shape1 = 2, elems = [7, 7, 0, 0]\<rparr>,
          ''s/b'' \<mapsto> \<lparr>shape0 = 2, shape1 = 2, elems = [0, 0, 7, 7]\<rparr>,
          ''s/c'' \<mapsto> \<lparr>shape0 = 2, shape1 = 2, elems = [0, 7, 7, 7]\<rparr>], [], 0))
     = Inr (''1 1 0 0 0\<newline>1 2 0 0 0\<newline>1 3 0 0 2\<newline>'', 3)
   \<and> point_listing example_slice_tools 3 \<lparr>shape0 = 2, shape1 = 2, elems = [0, 255, 0, 0]\<rparr>
     = ''7 1 0 0 2\<newline>''
   \<and> map (\<lambda>l. py_index (py_split l) 0)
         (file_lines ''1 1 0 0 0\<newline>1 2 0 0 0\<newline>1 3 0 0 2\<newline>'')
     = [Inr ''1'', Inr ''1'', Inr ''1'']"
proof -
  let ?fs = "[''s/a'' \<mapsto> \<lparr>shape0 = 2, shape1 = 2, elems = [7, 7, 0, 0 :: 8 word]\<rparr>,
          ''s/b'' \<mapsto> \<lparr>shape0 = 2, shape1 = 2, elems = [0, 0, 7, 7]\<rparr>,
          ''s/c'' \<mapsto> \<lparr>shape0 = 2, shape1 = 2, elems = [0, 7, 7, 7]\<rparr>]"
  let ?F = "''1 1 0 0 0\<newline>1 2 0 0 0\<newline>1 3 0 0 2\<newline>''"
  note e = example_slice_loop
  from sum_snd_Inr [OF e] obtain fs' where
    h1: "slice_loop example_misc example_slice_tools 2 2 [''s/a'', ''s/b'', ''s/c''] ''t'' [1, 2, 3]
           (?fs, [], 0) = Inr (fs', ?F, 3)" by blast
  have pl: "point_listing example_slice_tools 3 \<lparr>shape0 = 2, shape1 = 2, elems = [0, 255, 0, 0]\<rparr>
     = ''7 1 0 0 2\<newline>''" by code_simp
  have fl: "file_lines ?F = [''1 1 0 0 0\<newline>'', ''1 2 0 0 0\<newline>'', ''1 3 0 0 2\<newline>'']"
    by code_simp
  from accumulated_object_index_is_1 [OF h1] obtain appended where
    a: "?F = [] @ appended"
    and p: "\<forall>l \<in> set (file_lines appended). py_index (py_split l) 0 = Inr ''1''" by blast
  from a have "appended = ?F" by simp
  with p have "\<forall>l \<in> set (file_lines ?F). py_index (py_split l) 0 = Inr ''1''" by simp
  then have "map (\<lambda>l. py_index (py_split l) 0) (file_lines ?F) = [Inr ''1'', Inr ''1'', Inr ''1'']"
    unfolding fl by simp
  with e pl show ?thesis by blast
qed

end
